theory Spec2Isabelle
  imports Complex_Main "HOL-Library.Sublist" "HOL-Library.Log_Nat"
begin

section \<open>JavaScript strings\<close>

text \<open>
  A JavaScript string is modelled as a \<^typ>\<open>string\<close>: one \<^typ>\<open>char\<close> per UTF-16 code
  unit, so \<open>length\<close> is the \<open>.length\<close> of the source. The model covers the code units
  0 to 255 (ASCII and Latin-1); every literal of scanner.js and analyzer.js that a
  function inspects lies in that range. Paths are POSIX paths: the separator is \<open>/\<close>
  and a backslash is an ordinary character of a file name.
\<close>

definition backslash :: char where
  "backslash = CHR 0x5C"

text \<open>\<open>s.replace(/\\/g, '/')\<close>\<close>

definition normalize_sep :: "string \<Rightarrow> string" where
  "normalize_sep s = map (\<lambda>c. if c = backslash then CHR ''/'' else c) s"

text \<open>\<open>s.startsWith(t)\<close>, \<open>s.endsWith(t)\<close>, \<open>s.includes(t)\<close>\<close>

definition startsWith :: "string \<Rightarrow> string \<Rightarrow> bool" where
  "startsWith s t = prefix t s"

definition endsWith :: "string \<Rightarrow> string \<Rightarrow> bool" where
  "endsWith s t = suffix t s"

definition includes_str :: "string \<Rightarrow> string \<Rightarrow> bool" where
  "includes_str s t = sublist t s"

text \<open>
  \<open>s.split(c)\<close> for a one-character separator: never empty, \<open>''''\<close> gives \<open>['''']\<close>,
  and adjacent or trailing separators give empty pieces.
\<close>

fun split :: "char \<Rightarrow> string \<Rightarrow> string list" where
  "split c [] = [[]]"
| "split c (x # xs) =
     (if x = c then [] # split c xs
      else (case split c xs of
              [] \<Rightarrow> [[x]]
            | p # ps \<Rightarrow> (x # p) # ps))"

text \<open>
  \<open>s.trim()\<close>: the white space and line terminators of ECMAScript that are code units
  below 256 (tab, line feed, vertical tab, form feed, carriage return, space,
  no-break space).
\<close>

definition js_whitespace :: "char \<Rightarrow> bool" where
  "js_whitespace c =
     (c = CHR 0x09 \<or> c = CHR 0x0A \<or> c = CHR 0x0B \<or> c = CHR 0x0C \<or> c = CHR 0x0D
      \<or> c = CHR 0x20 \<or> c = CHR 0xA0)"

definition trim :: "string \<Rightarrow> string" where
  "trim s = rev (dropWhile js_whitespace (rev (dropWhile js_whitespace s)))"

text \<open>
  \<open>s.toLowerCase()\<close> on code units below 256: \<open>A\<close>-\<open>Z\<close> and the Latin-1 capitals
  0xC0-0xDE (0xD7, the multiplication sign, apart) move up by 0x20.
\<close>

definition lower_char :: "char \<Rightarrow> char" where
  "lower_char c =
     (let n = of_char c :: nat
      in if (65 \<le> n \<and> n \<le> 90) \<or> (192 \<le> n \<and> n \<le> 222 \<and> n \<noteq> 215)
         then char_of (n + 32) else c)"

definition toLowerCase :: "string \<Rightarrow> string" where
  "toLowerCase s = map lower_char s"


section \<open>The regular expression engine\<close>

text \<open>
  \<open>minimatch\<close> turns a pattern into the source of a regular expression: every \<open>.\<close>
  becomes \<open>\.\<close>, then every \<open>*\<close> becomes \<open>.*\<close>, and the result is put between \<open>^\<close>
  and \<open>$\<close>. No other character is escaped, so a pattern with one of
  \<open>^ $ + ? ( ) [ ] { } |\<close> reaches the \<open>RegExp\<close> constructor with that character
  unescaped: the engine then matches by the rules of regular expressions (\<open>*.py[cod]\<close>)
  or the constructor throws \<open>SyntaxError\<close> (\<open>*(\<close>), which nothing in scanner.js catches.

  The engine is not code of this repository. It is a parameter, \<open>re_test\<close>, of every
  function that matches: \<open>re_test src str\<close> is the outcome of
  \<open>new RegExp(src).test(str)\<close>, \<open>None\<close> when the constructor throws and the verdict
  otherwise. Every property below holds for every engine, the one of the JavaScript
  runtime among them.

  The values of \<open>js_error\<close> are that exception and what the calls of \<open>fs\<close> throw.
\<close>

datatype js_error = SyntaxError | ENOENT | ENOTDIR | EACCES | EISDIR

type_synonym regexp_engine = "string \<Rightarrow> string \<Rightarrow> bool option"


section \<open>scanner.js: the pattern matcher\<close>

text \<open>\<open>pattern.replace(/\./g, '\\.')\<close> and \<open>.replace(/\*/g, '.*')\<close>\<close>

definition escape_dots :: "string \<Rightarrow> string" where
  "escape_dots s = concat (map (\<lambda>c. if c = CHR ''.'' then [backslash, CHR ''.''] else [c]) s)"

definition expand_stars :: "string \<Rightarrow> string" where
  "expand_stars s = concat (map (\<lambda>c. if c = CHR ''*'' then ''.*'' else [c]) s)"

definition minimatch :: "regexp_engine \<Rightarrow> string \<Rightarrow> string \<Rightarrow> js_error + bool" where
  "minimatch re_test str pattern =
     (if pattern = ''*'' then Inr True
      else if \<not> includes_str pattern ''*'' then Inr (str = pattern)
      else (case re_test (''^'' @ expand_stars (escape_dots pattern) @ ''$'') str of
              None \<Rightarrow> Inl SyntaxError
            | Some verdict \<Rightarrow> Inr verdict))"

text \<open>\<open>parts.some(part => minimatch(part, p))\<close>: left to right, stopping at the first hit.\<close>

fun some_minimatch :: "regexp_engine \<Rightarrow> string list \<Rightarrow> string \<Rightarrow> js_error + bool" where
  "some_minimatch re_test [] p = Inr False"
| "some_minimatch re_test (part # parts) p =
     (case minimatch re_test part p of
        Inl e \<Rightarrow> Inl e
      | Inr hit \<Rightarrow> if hit then Inr True else some_minimatch re_test parts p)"

definition matchesPattern :: "regexp_engine \<Rightarrow> string \<Rightarrow> string \<Rightarrow> js_error + bool" where
  "matchesPattern re_test relPath pattern =
     (let normalized = normalize_sep relPath;
          p = normalize_sep pattern
      in if \<not> includes_str p ''/'' then some_minimatch re_test (split CHR ''/'' normalized) p
         else if startsWith p ''**/'' then
           (let suffix_p = drop 3 p
            in Inr (endsWith normalized suffix_p \<or> includes_str normalized (''/'' @ suffix_p)))
         else if endsWith p ''/*'' then
           (let prefix_p = take (length p - 2) p
            in Inr (startsWith normalized (prefix_p @ ''/'')))
         else if endsWith p ''/**'' then
           (let prefix_p = take (length p - 3) p
            in Inr (startsWith normalized (prefix_p @ ''/'') \<or> normalized = prefix_p))
         else Inr (normalized = p \<or> startsWith normalized (p @ ''/'')))"

fun isIgnored :: "regexp_engine \<Rightarrow> string \<Rightarrow> string list \<Rightarrow> js_error + bool" where
  "isIgnored re_test relPath [] = Inr False"
| "isIgnored re_test relPath (pattern # patterns) =
     (case matchesPattern re_test relPath pattern of
        Inl e \<Rightarrow> Inl e
      | Inr hit \<Rightarrow> if hit then Inr True else isIgnored re_test relPath patterns)"


section \<open>The file system\<close>

text \<open>
  The tree below a path, as the calls of \<open>fs\<close> see it. A regular file has the outcome
  of \<open>statSync\<close> (its size in bytes, or \<open>None\<close> when the call throws), the characters
  it holds, and whether \<open>readFileSync\<close> delivers them or throws. A directory has its
  entries in the order \<open>readdirSync\<close> lists them, and whether listing succeeds. A
  symbolic link has its target, if that resolves. \<open>Special\<close> is any other entry
  (socket, FIFO, device). A name in a listing is one path segment: not empty, without
  \<open>/\<close>, and neither \<open>.\<close> nor \<open>..\<close>.
\<close>

datatype fsnode =
    File "int option" string bool
  | Dir bool "(string \<times> fsnode) list"
  | Symlink "fsnode option"
  | Special

text \<open>\<open>fs\<close> calls on a path follow symbolic links.\<close>

fun resolve :: "fsnode \<Rightarrow> fsnode option" where
  "resolve (Symlink None) = None"
| "resolve (Symlink (Some t)) = resolve t"
| "resolve n = Some n"

definition lookup_path :: "fsnode option \<Rightarrow> fsnode option" where
  "lookup_path here = (case here of None \<Rightarrow> None | Some n \<Rightarrow> resolve n)"

text \<open>
  \<open>fs.existsSync(p)\<close> is false whenever the path cannot be accessed: when nothing is
  there, and for a file on which \<open>statSync\<close> throws.
\<close>

definition existsSync :: "fsnode option \<Rightarrow> bool" where
  "existsSync here =
     (case lookup_path here of
        None \<Rightarrow> False
      | Some (File None cs r) \<Rightarrow> False
      | Some _ \<Rightarrow> True)"

definition readdirSync :: "fsnode option \<Rightarrow> js_error + (string \<times> fsnode) list" where
  "readdirSync here =
     (case lookup_path here of
        None \<Rightarrow> Inl ENOENT
      | Some (Dir l es) \<Rightarrow> if l then Inr es else Inl EACCES
      | Some _ \<Rightarrow> Inl ENOTDIR)"

text \<open>\<open>fs.statSync(p).size\<close>; the model gives it for regular files, which is where walk asks.\<close>

definition statSync_size :: "fsnode option \<Rightarrow> js_error + int" where
  "statSync_size here =
     (case lookup_path here of
        Some (File (Some n) cs r) \<Rightarrow> Inr n
      | Some (File None cs r) \<Rightarrow> Inl EACCES
      | _ \<Rightarrow> Inl ENOENT)"

text \<open>\<open>fs.readFileSync(p, 'utf8')\<close>; reading a special file is modelled as failing.\<close>

definition readFileSync :: "fsnode option \<Rightarrow> js_error + string" where
  "readFileSync here =
     (case lookup_path here of
        None \<Rightarrow> Inl ENOENT
      | Some (File sz cs r) \<Rightarrow> if r then Inr cs else Inl EACCES
      | Some (Dir l es) \<Rightarrow> Inl EISDIR
      | Some _ \<Rightarrow> Inl EACCES)"

text \<open>The \<open>Dirent\<close> of an entry reports the entry itself, not a link's target.\<close>

definition isDirectory :: "fsnode \<Rightarrow> bool" where
  "isDirectory n = (case n of Dir l es \<Rightarrow> True | _ \<Rightarrow> False)"

definition isFile :: "fsnode \<Rightarrow> bool" where
  "isFile n = (case n of File sz cs r \<Rightarrow> True | _ \<Rightarrow> False)"

text \<open>
  What \<open>scan\<close> asks the file system about: the path \<open>rootDir\<close>, and the two paths
  \<open>path.join(rootDir, '.claudeignore')\<close> and \<open>path.join(rootDir, '.gitignore')\<close>. The three
  are given apart. \<open>path.join\<close> normalises the joined path by its text, so the two
  files are not always entries of what \<open>readdirSync(rootDir)\<close> lists: for \<open>d/missing/..\<close>
  the listing throws, and the joined path is \<open>d/.claudeignore\<close>, which may be there.
\<close>

record file_system =
  at_rootDir :: "fsnode option"
  at_claudeignore :: "fsnode option"
  at_gitignore :: "fsnode option"


section \<open>Node's path module\<close>

text \<open>
  \<open>path.join\<close> on POSIX, as \<open>lib/path.js\<close> has it: the arguments that are not empty
  are put together with \<open>/\<close> and the result is normalised. \<open>normalizeString\<close> goes
  through the segments between the separators: an empty segment and \<open>.\<close> are dropped,
  \<open>..\<close> removes the segment before it unless there is none or it is itself \<open>..\<close> (then
  \<open>..\<close> is kept when the path is relative and dropped when it is absolute), and any
  other segment is kept. \<open>normalize\<close> puts back the leading \<open>/\<close> of an absolute path
  and a trailing \<open>/\<close>, and gives \<open>.\<close> for a path that comes out empty.
\<close>

fun join_slash :: "string list \<Rightarrow> string" where
  "join_slash [] = []"
| "join_slash [s] = s"
| "join_slash (s # t # ss) = s @ ''/'' @ join_slash (t # ss)"

definition path_segments :: "string \<Rightarrow> string list" where
  "path_segments p = filter (\<lambda>s. s \<noteq> []) (split CHR ''/'' p)"

definition normalize_step :: "bool \<Rightarrow> string list \<Rightarrow> string \<Rightarrow> string list" where
  "normalize_step allowAboveRoot res seg =
     (if seg = ''.'' then res
      else if seg = ''..'' then
        (if res \<noteq> [] \<and> last res \<noteq> ''..'' then butlast res
         else if allowAboveRoot then res @ [''..'']
         else res)
      else res @ [seg])"

definition normalizeString :: "string \<Rightarrow> bool \<Rightarrow> string" where
  "normalizeString p allowAboveRoot =
     join_slash (foldl (normalize_step allowAboveRoot) [] (path_segments p))"

definition path_normalize :: "string \<Rightarrow> string" where
  "path_normalize p =
     (if p = [] then ''.''
      else
        (let isAbsolute = (hd p = CHR ''/'');
             trailingSeparator = (last p = CHR ''/'');
             q = normalizeString p (\<not> isAbsolute)
         in if q = [] then (if isAbsolute then ''/'' else if trailingSeparator then ''./'' else ''.'')
            else (if isAbsolute then ''/'' else []) @ q @ (if trailingSeparator then ''/'' else [])))"

definition path_join :: "string \<Rightarrow> string \<Rightarrow> string" where
  "path_join a b =
     (let joined = (if a = [] then b else if b = [] then a else a @ ''/'' @ b)
      in if joined = [] then ''.'' else path_normalize joined)"

text \<open>
  \<open>path.relative(rootDir, fullPath)\<close> where \<open>fullPath\<close> is \<open>path.join(dir, entry.name)\<close>
  and \<open>dir\<close> is \<open>rootDir\<close> or a directory the walk reached below it. \<open>path.relative\<close>
  resolves both paths by their text against the same working directory and gives what
  \<open>fullPath\<close> has after the segments of \<open>rootDir\<close>. Each \<open>path.join\<close> on the way down
  added one entry name, so the result is the entry names from \<open>rootDir\<close> down joined
  by \<open>/\<close>, whatever the text of \<open>rootDir\<close>. The walk carries those names as \<open>below\<close>,
  the names from \<open>rootDir\<close> down to \<open>dir\<close>.
\<close>

definition relative_below :: "string list \<Rightarrow> string \<Rightarrow> string" where
  "relative_below below name_e = join_slash (below @ [name_e])"

text \<open>
  \<open>path.extname(name)\<close> for one path segment: from the last \<open>.\<close> to the end; empty when
  there is no \<open>.\<close>, when the only \<open>.\<close> is the first character, and for \<open>..\<close>.
\<close>

definition extname :: "string \<Rightarrow> string" where
  "extname name =
     (let startDot = length name - length (takeWhile (\<lambda>c. c \<noteq> CHR ''.'') (rev name)) - 1
      in if CHR ''.'' \<notin> set name \<or> startDot = 0 \<or> name = ''..'' then []
         else drop startDot name)"


section \<open>scanner.js: the walker\<close>

definition CHARS_PER_TOKEN :: int where
  "CHARS_PER_TOKEN = 4"

definition DEFAULT_IGNORE :: "string list" where
  "DEFAULT_IGNORE = [''.git'', ''.DS_Store'', ''Thumbs.db'']"

definition BINARY_EXTENSIONS :: "string list" where
  "BINARY_EXTENSIONS =
     [''.png'', ''.jpg'', ''.jpeg'', ''.gif'', ''.webp'', ''.ico'', ''.bmp'', ''.tiff'', ''.svg'',
      ''.mp4'', ''.mp3'', ''.wav'', ''.ogg'', ''.mov'', ''.avi'', ''.mkv'',
      ''.pdf'', ''.zip'', ''.tar'', ''.gz'', ''.7z'', ''.rar'',
      ''.woff'', ''.woff2'', ''.ttf'', ''.eot'', ''.otf'',
      ''.exe'', ''.dll'', ''.so'', ''.dylib'', ''.bin'',
      ''.pyc'', ''.pyo'', ''.class'',
      ''.db'', ''.sqlite'', ''.sqlite3'']"

definition parseIgnoreFile :: "fsnode option \<Rightarrow> string list" where
  "parseIgnoreFile filePath =
     (case readFileSync filePath of
        Inl e \<Rightarrow> []
      | Inr content \<Rightarrow>
          filter (\<lambda>line. line \<noteq> [] \<and> \<not> startsWith line ''#'')
            (map trim (split CHR 0x0A content)))"

text \<open>
  \<open>Math.ceil(chars / CHARS_PER_TOKEN)\<close>. The quotient of an integer below \<open>2^53\<close> by 4
  is exact in double precision, so the real quotient is the one the source rounds up.
\<close>

definition estimateTokens :: "int \<Rightarrow> int" where
  "estimateTokens chars = \<lceil>real_of_int chars / real_of_int CHARS_PER_TOKEN\<rceil>"

record file_record =
  path :: string
  relPath :: string
  name :: string
  ext :: string
  size_f :: int
  tokens :: int
  isBinary :: bool

record walk_state =
  files :: "file_record list"
  ignoredCount :: int
  binaryCount :: int

text \<open>An exception that nothing catches ends the whole call: the rest runs only on \<open>Inr\<close>.\<close>

definition and_then :: "'e + 'a \<Rightarrow> ('a \<Rightarrow> 'e + 'b) \<Rightarrow> 'e + 'b" where
  "and_then r k = (case r of Inl e \<Rightarrow> Inl e | Inr v \<Rightarrow> k v)"

text \<open>
  The body of the \<open>entry.isFile()\<close> branch. The \<open>try\<close> block assigns \<open>size\<close> once
  \<open>statSync\<close> has returned and \<open>tokens\<close> once \<open>readFileSync\<close> has; the \<open>catch\<close> is empty,
  so the record is pushed whatever happened.
\<close>

definition visit_file :: "string \<Rightarrow> string \<Rightarrow> string \<Rightarrow> fsnode \<Rightarrow> walk_state \<Rightarrow> walk_state" where
  "visit_file fullPath relPath_e name_e node st =
     (let ext_e = toLowerCase (extname name_e);
          isBinary_e = (ext_e \<in> set BINARY_EXTENSIONS);
          (size_e, tokens_e) =
            (case statSync_size (Some node) of
               Inl e \<Rightarrow> (0, 0)
             | Inr sz \<Rightarrow>
                 if \<not> isBinary_e then
                   (case readFileSync (Some node) of
                      Inl e \<Rightarrow> (sz, 0)
                    | Inr content \<Rightarrow> (sz, estimateTokens (int (length content))))
                 else (sz, 0))
      in st\<lparr> binaryCount := (if isBinary_e then binaryCount st + 1 else binaryCount st),
             files := files st @
               [\<lparr> path = fullPath, relPath = relPath_e, name = name_e, ext = ext_e,
                  size_f = size_e, tokens = tokens_e, isBinary = isBinary_e \<rparr>] \<rparr>)"

text \<open>
  \<open>walk(dir)\<close>, given what is at \<open>dir\<close>: the closure variable \<open>allPatterns\<close> is a
  parameter, \<open>rootDir\<close> is present as \<open>below\<close>, the names from it down to \<open>dir\<close>, and
  \<open>files\<close>, \<open>ignoredCount\<close>, \<open>binaryCount\<close> are the state. The first equation is
  \<open>readdirSync\<close> returning the entries, the next four are its \<open>catch\<close>. The node of an
  entry is what \<open>fullPath\<close> names for \<open>statSync\<close>, \<open>readFileSync\<close> and the next
  \<open>readdirSync\<close>; that is so whenever \<open>rootDir\<close> has no \<open>..\<close> after a symbolic link, as
  with the resolved path the command line passes.
\<close>

fun walk ::
  "regexp_engine \<Rightarrow> string list \<Rightarrow> string \<Rightarrow> string list \<Rightarrow> fsnode \<Rightarrow> walk_state
     \<Rightarrow> js_error + walk_state"
and walk_entries ::
  "regexp_engine \<Rightarrow> string list \<Rightarrow> string \<Rightarrow> string list \<Rightarrow> (string \<times> fsnode) list
     \<Rightarrow> walk_state \<Rightarrow> js_error + walk_state"
where
  "walk re_test allPatterns dir below (Dir True es) st =
     walk_entries re_test allPatterns dir below es st"
| "walk re_test allPatterns dir below (Dir False es) st = Inr st"
| "walk re_test allPatterns dir below (File sz cs r) st = Inr st"
| "walk re_test allPatterns dir below (Symlink t) st = Inr st"
| "walk re_test allPatterns dir below Special st = Inr st"
| "walk_entries re_test allPatterns dir below [] st = Inr st"
| "walk_entries re_test allPatterns dir below ((name_e, node) # rest) st =
     (let fullPath = path_join dir name_e;
          relPath_e = relative_below below name_e
      in and_then (isIgnored re_test relPath_e allPatterns) (\<lambda>ignored.
           if ignored then
             walk_entries re_test allPatterns dir below rest
               (st\<lparr> ignoredCount := ignoredCount st + 1 \<rparr>)
           else if isDirectory node then
             and_then (walk re_test allPatterns fullPath (below @ [name_e]) node st) (\<lambda>st'.
               walk_entries re_test allPatterns dir below rest st')
           else if isFile node then
             walk_entries re_test allPatterns dir below rest
               (visit_file fullPath relPath_e name_e node st)
           else walk_entries re_test allPatterns dir below rest st))"

text \<open>
  \<open>Array.prototype.sort\<close> with a comparator: the sort is stable, so for a comparator
  that is a consistent order the result is that of a stable insertion sort.
\<close>

fun js_insert :: "('a \<Rightarrow> 'a \<Rightarrow> int) \<Rightarrow> 'a \<Rightarrow> 'a list \<Rightarrow> 'a list" where
  "js_insert cmp x [] = [x]"
| "js_insert cmp x (y # ys) = (if cmp x y \<le> 0 then x # y # ys else y # js_insert cmp x ys)"

definition js_sort :: "('a \<Rightarrow> 'a \<Rightarrow> int) \<Rightarrow> 'a list \<Rightarrow> 'a list" where
  "js_sort cmp xs = foldr (js_insert cmp) xs []"

record scan_options =
  verbose :: "bool option"
  respectGitignore :: "bool option"

record scan_result = walk_state +
  totalTokens :: int
  totalBytes :: int
  rootDir :: string
  hasClaudeignore :: bool
  hasGitignore :: bool

text \<open>
  \<open>scan(rootDir, options)\<close> on a file system. The walk starts with
  \<open>readdirSync(rootDir)\<close>, which follows a symbolic link at the root.
\<close>

definition walk_root ::
  "regexp_engine \<Rightarrow> string list \<Rightarrow> string \<Rightarrow> fsnode option \<Rightarrow> walk_state
     \<Rightarrow> js_error + walk_state" where
  "walk_root re_test allPatterns rootDir_a root_node st =
     (case lookup_path root_node of
        None \<Rightarrow> Inr st
      | Some n \<Rightarrow> walk re_test allPatterns rootDir_a [] n st)"

definition load_patterns :: "file_system \<Rightarrow> scan_options \<Rightarrow> string list" where
  "load_patterns fs options =
     (let claudeignorePath = at_claudeignore fs;
          gitignorePath = at_gitignore fs;
          userPatterns = (if existsSync claudeignorePath then parseIgnoreFile claudeignorePath else []);
          gitPatterns =
            (if respectGitignore options \<noteq> Some False \<and> existsSync gitignorePath
             then parseIgnoreFile gitignorePath else [])
      in DEFAULT_IGNORE @ gitPatterns @ userPatterns)"

definition scan ::
  "regexp_engine \<Rightarrow> file_system \<Rightarrow> string \<Rightarrow> scan_options \<Rightarrow> js_error + scan_result" where
  "scan re_test fs rootDir_a options =
     (let allPatterns = load_patterns fs options
      in and_then
           (walk_root re_test allPatterns rootDir_a (at_rootDir fs)
              \<lparr> files = [], ignoredCount = 0, binaryCount = 0 \<rparr>)
           (\<lambda>st.
              Inr \<lparr> files = js_sort (\<lambda>a b. tokens b - tokens a) (files st),
                    ignoredCount = ignoredCount st,
                    binaryCount = binaryCount st,
                    totalTokens = foldl (\<lambda>sum f. sum + tokens f) 0 (files st),
                    totalBytes = foldl (\<lambda>sum f. sum + size_f f) 0 (files st),
                    rootDir = rootDir_a,
                    hasClaudeignore = existsSync (at_claudeignore fs),
                    hasGitignore = existsSync (at_gitignore fs) \<rparr>))"


section \<open>analyzer.js\<close>

datatype priority = critical | high | medium | low

datatype category =
  dependencies | build | coverage | python | lockfiles | logs | ide | os | test | cache

text \<open>
  The regular expressions of \<open>BLOAT_PATTERNS\<close> have four shapes, each with the paths it
  tests true on (\<open>$\<close> is the end of the input, there is no flag):
  \<^item> \<open>/^(a|b)(\/|$)/\<close>, \<open>TopDir [a, b]\<close>: the path is one of the alternatives, or starts
    with one followed by \<open>/\<close> (\<open>logs?\<close> stands for the two alternatives \<open>log\<close>, \<open>logs\<close>);
  \<^item> \<open>/^a$/\<close>, \<open>TopFile a\<close>: the path is \<open>a\<close>;
  \<^item> \<open>/a$/\<close>, \<open>Suffix a\<close>: the path ends with \<open>a\<close>;
  \<^item> \<open>/a(\/|$)/\<close>, \<open>Segment a\<close>: the path ends with \<open>a\<close> or has \<open>a/\<close> somewhere.
  A \<open>RegExp\<close> is its text, as \<open>toString\<close> gives it, with its shape.
\<close>

datatype regex_shape =
  TopDir "string list" | TopFile string | Suffix string | Segment string

datatype RegExp = RegExp string regex_shape

fun toString :: "RegExp \<Rightarrow> string" where
  "toString (RegExp src shape) = src"

fun shape_test :: "regex_shape \<Rightarrow> string \<Rightarrow> bool" where
  "shape_test (TopDir alts) s = list_ex (\<lambda>a. s = a \<or> startsWith s (a @ ''/'')) alts"
| "shape_test (TopFile a) s = (s = a)"
| "shape_test (Suffix a) s = endsWith s a"
| "shape_test (Segment a) s = (endsWith s a \<or> includes_str s (a @ ''/''))"

fun regex_test :: "RegExp \<Rightarrow> string \<Rightarrow> bool" where
  "regex_test (RegExp src shape) s = shape_test shape s"

record 'p described =
  pattern :: 'p
  reason :: string
  category :: category
  priority :: priority

type_synonym bloat_rule = "RegExp described"

definition rule :: "string \<Rightarrow> regex_shape \<Rightarrow> category \<Rightarrow> string \<Rightarrow> priority \<Rightarrow> bloat_rule" where
  "rule src shape c r p = \<lparr> pattern = RegExp src shape, reason = r, category = c, priority = p \<rparr>"

definition bsl :: string where
  "bsl = [backslash]"

text \<open>The table, row by row; the dash of the reasons is written \<open>--\<close>.\<close>

definition BLOAT_PATTERNS :: "bloat_rule list" where
  "BLOAT_PATTERNS =
     [
      rule (''/^node_modules('' @ bsl @ ''/|$)/'') (TopDir [''node_modules'']) dependencies
        ''npm packages -- never needed in context'' critical,
      rule (''/^vendor('' @ bsl @ ''/|$)/'') (TopDir [''vendor'']) dependencies
        ''vendored dependencies -- exclude entirely'' critical,
      rule (''/^'' @ bsl @ ''.pnpm('' @ bsl @ ''/|$)/'') (TopDir [''.pnpm'']) dependencies
        ''pnpm store -- never needed in context'' critical,
      rule (''/^bower_components('' @ bsl @ ''/|$)/'') (TopDir [''bower_components'']) dependencies
        ''Bower dependencies -- exclude entirely'' critical,
      rule (''/^(dist|build|out|output)('' @ bsl @ ''/|$)/'') (TopDir [''dist'', ''build'', ''out'', ''output'']) build
        ''compiled output -- Claude reads source, not build'' critical,
      rule (''/^'' @ bsl @ ''.next('' @ bsl @ ''/|$)/'') (TopDir [''.next'']) build
        ''Next.js build cache -- not source code'' critical,
      rule (''/^'' @ bsl @ ''.nuxt('' @ bsl @ ''/|$)/'') (TopDir [''.nuxt'']) build
        ''Nuxt.js build cache'' critical,
      rule (''/^'' @ bsl @ ''.svelte-kit('' @ bsl @ ''/|$)/'') (TopDir [''.svelte-kit'']) build
        ''SvelteKit build cache'' critical,
      rule (''/^'' @ bsl @ ''.vite('' @ bsl @ ''/|$)/'') (TopDir [''.vite'']) build
        ''Vite cache'' high,
      rule (''/^'' @ bsl @ ''.turbo('' @ bsl @ ''/|$)/'') (TopDir [''.turbo'']) build
        ''Turborepo cache'' high,
      rule (''/^'' @ bsl @ ''.parcel-cache('' @ bsl @ ''/|$)/'') (TopDir [''.parcel-cache'']) build
        ''Parcel build cache'' high,
      rule (''/^storybook-static('' @ bsl @ ''/|$)/'') (TopDir [''storybook-static'']) build
        ''Storybook build output'' high,
      rule (''/^coverage('' @ bsl @ ''/|$)/'') (TopDir [''coverage'']) coverage
        ''test coverage reports -- generated data'' high,
      rule (''/^'' @ bsl @ ''.nyc_output('' @ bsl @ ''/|$)/'') (TopDir [''.nyc_output'']) coverage
        ''NYC/Istanbul coverage output'' high,
      rule (''/^htmlcov('' @ bsl @ ''/|$)/'') (TopDir [''htmlcov'']) coverage
        ''Python coverage HTML report'' high,
      rule (''/^__pycache__('' @ bsl @ ''/|$)/'') (TopDir [''__pycache__'']) python
        ''Python bytecode cache'' critical,
      rule (''/'' @ bsl @ ''.pyc$/'') (Suffix ''.pyc'') python
        ''compiled Python bytecode'' critical,
      rule (''/^(venv|'' @ bsl @ ''.venv|env|'' @ bsl @ ''.env)('' @ bsl @ ''/|$)/'') (TopDir [''venv'', ''.venv'', ''env'', ''.env'']) python
        ''Python virtual environment -- use requirements.txt instead'' critical,
      rule (''/^'' @ bsl @ ''.tox('' @ bsl @ ''/|$)/'') (TopDir [''.tox'']) python
        ''tox testing environments'' high,
      rule (''/'' @ bsl @ ''.egg-info('' @ bsl @ ''/|$)/'') (Segment ''.egg-info'') python
        ''Python package build metadata'' high,
      rule (''/^package-lock'' @ bsl @ ''.json$/'') (TopFile ''package-lock.json'') lockfiles
        ''npm lock file -- thousands of lines of generated JSON'' high,
      rule (''/^yarn'' @ bsl @ ''.lock$/'') (TopFile ''yarn.lock'') lockfiles
        ''Yarn lock file -- large generated file'' high,
      rule (''/^pnpm-lock'' @ bsl @ ''.yaml$/'') (TopFile ''pnpm-lock.yaml'') lockfiles
        ''pnpm lock file -- large generated file'' high,
      rule (''/^Cargo'' @ bsl @ ''.lock$/'') (TopFile ''Cargo.lock'') lockfiles
        ''Rust lock file -- large generated file'' medium,
      rule (''/^Gemfile'' @ bsl @ ''.lock$/'') (TopFile ''Gemfile.lock'') lockfiles
        ''Ruby lock file -- large generated file'' medium,
      rule (''/^composer'' @ bsl @ ''.lock$/'') (TopFile ''composer.lock'') lockfiles
        ''PHP Composer lock file -- large generated file'' medium,
      rule (''/^poetry'' @ bsl @ ''.lock$/'') (TopFile ''poetry.lock'') lockfiles
        ''Poetry lock file -- large generated file'' medium,
      rule (''/^uv'' @ bsl @ ''.lock$/'') (TopFile ''uv.lock'') lockfiles
        ''uv lock file -- large generated file'' medium,
      rule (''/^(logs?|'' @ bsl @ ''.logs?)('' @ bsl @ ''/|$)/'') (TopDir [''log'', ''logs'', ''.log'', ''.logs'']) logs
        ''log files -- runtime output, not source'' high,
      rule (''/'' @ bsl @ ''.log$/'') (Suffix ''.log'') logs
        ''log file'' high,
      rule (''/^'' @ bsl @ ''.idea('' @ bsl @ ''/|$)/'') (TopDir [''.idea'']) ide
        ''JetBrains IDE config -- not project code'' medium,
      rule (''/^'' @ bsl @ ''.vscode('' @ bsl @ ''/|$)/'') (TopDir [''.vscode'']) ide
        ''VS Code config -- not project code'' medium,
      rule (''/^'' @ bsl @ ''.cursor('' @ bsl @ ''/|$)/'') (TopDir [''.cursor'']) ide
        ''Cursor editor config'' medium,
      rule (''/^'' @ bsl @ ''.DS_Store$/'') (TopFile ''.DS_Store'') os
        ''macOS metadata file'' medium,
      rule (''/^Thumbs'' @ bsl @ ''.db$/'') (TopFile ''Thumbs.db'') os
        ''Windows thumbnail cache'' medium,
      rule (''/^__snapshots__('' @ bsl @ ''/|$)/'') (TopDir [''__snapshots__'']) test
        ''Jest snapshots -- often very large'' medium,
      rule (''/^fixtures?('' @ bsl @ ''/|$)/'') (TopDir [''fixture'', ''fixtures'']) test
        ''test fixtures -- usually large data files'' low,
      rule (''/^'' @ bsl @ ''.cache('' @ bsl @ ''/|$)/'') (TopDir [''.cache'']) cache
        ''generic cache directory'' high,
      rule (''/^tmp('' @ bsl @ ''/|$)/'') (TopDir [''tmp'']) cache
        ''temp files'' high,
      rule (''/^'' @ bsl @ ''.temp('' @ bsl @ ''/|$)/'') (TopDir [''.temp'']) cache
        ''temp files'' high,
      rule (''/^public'' @ bsl @ ''/build('' @ bsl @ ''/|$)/'') (TopDir [''public/build'']) build
        ''compiled public assets'' high
     ]"

definition LARGE_FILE_THRESHOLD :: int where
  "LARGE_FILE_THRESHOLD = 10 * 1024"

record suggestion = "string described" +
  tokenSavings :: int
  fileCount :: int

record bloat_file = file_record +
  bloatReason :: string
  bloatCategory :: category

text \<open>
  \<open>bpPattern.toString().match(/\\\.(\w+)\$/)\<close>: the leftmost place where the text has a
  backslash, a dot, one or more word characters and a dollar sign; the result is the
  word.
\<close>

definition word_char :: "char \<Rightarrow> bool" where
  "word_char c =
     (let n = of_char c :: nat
      in (48 \<le> n \<and> n \<le> 57) \<or> (65 \<le> n \<and> n \<le> 90) \<or> n = 95 \<or> (97 \<le> n \<and> n \<le> 122))"

fun extMatch :: "string \<Rightarrow> string option" where
  "extMatch [] = None"
| "extMatch (c # cs) =
     (if c = backslash \<and> startsWith cs ''.'' \<and> takeWhile word_char (drop 1 cs) \<noteq> []
         \<and> startsWith (dropWhile word_char (drop 1 cs)) ''$''
      then Some (takeWhile word_char (drop 1 cs))
      else extMatch cs)"

definition getIgnorePattern :: "string \<Rightarrow> RegExp \<Rightarrow> string" where
  "getIgnorePattern relPath_a bpPattern =
     (let parts = split CHR ''/'' (normalize_sep relPath_a);
          topLevel = hd parts
      in case extMatch (toString bpPattern) of
           Some w \<Rightarrow> ''*.'' @ w
         | None \<Rightarrow> topLevel @ (if length parts > 1 then ''/'' else []))"

text \<open>
  The \<open>Map\<close> of suggestions: keys in insertion order. \<open>set\<close> on a key that is there
  keeps its place, on a new key appends.
\<close>

type_synonym suggestion_map = "(string \<times> suggestion) list"

fun map_set :: "string \<Rightarrow> suggestion \<Rightarrow> suggestion_map \<Rightarrow> suggestion_map" where
  "map_set k v [] = [(k, v)]"
| "map_set k v ((k', v') # m) = (if k' = k then (k, v) # m else (k', v') # map_set k v m)"

definition map_has :: "suggestion_map \<Rightarrow> string \<Rightarrow> bool" where
  "map_has m k = (map_of m k \<noteq> None)"

record analysis_state =
  bloatFiles :: "bloat_file list"
  largeFiles :: "file_record list"
  suggestions_map :: suggestion_map

text \<open>
  The inner loop stops at the first rule whose pattern tests true (\<open>break\<close>): it is
  \<open>find\<close> over the table.
\<close>

definition first_rule :: "file_record \<Rightarrow> bloat_rule option" where
  "first_rule file = find (\<lambda>bp. regex_test (pattern bp) (relPath file)) BLOAT_PATTERNS"

text \<open>One round of the outer loop.\<close>

definition analyze_file :: "file_record \<Rightarrow> analysis_state \<Rightarrow> analysis_state" where
  "analyze_file file st =
     (case first_rule file of
        Some bp \<Rightarrow>
          (let key = toString (pattern bp);
               m1 = (if \<not> map_has (suggestions_map st) key
                     then map_set key
                            \<lparr> pattern = getIgnorePattern (relPath file) (pattern bp),
                              reason = reason bp, category = category bp, priority = priority bp,
                              tokenSavings = 0, fileCount = 0 \<rparr>
                            (suggestions_map st)
                     else suggestions_map st);
               m2 = (case map_of m1 key of
                       None \<Rightarrow> m1
                     | Some s \<Rightarrow>
                         map_set key
                           (s\<lparr> tokenSavings := tokenSavings s + tokens file,
                               fileCount := fileCount s + 1 \<rparr>) m1)
           in st\<lparr> suggestions_map := m2,
                  bloatFiles := bloatFiles st @
                    [file_record.extend file
                       \<lparr> bloatReason = reason bp, bloatCategory = category bp \<rparr>] \<rparr>)
      | None \<Rightarrow>
          if \<not> isBinary file \<and> size_f file > LARGE_FILE_THRESHOLD
          then st\<lparr> largeFiles := largeFiles st @ [file] \<rparr>
          else st)"

definition classify :: "file_record list \<Rightarrow> analysis_state" where
  "classify fs =
     fold analyze_file fs \<lparr> bloatFiles = [], largeFiles = [], suggestions_map = [] \<rparr>"

definition priorityOrder :: "priority \<Rightarrow> int" where
  "priorityOrder p = (case p of critical \<Rightarrow> 0 | high \<Rightarrow> 1 | medium \<Rightarrow> 2 | low \<Rightarrow> 3)"

definition compare_suggestions :: "suggestion \<Rightarrow> suggestion \<Rightarrow> int" where
  "compare_suggestions a b =
     (let pDiff = priorityOrder (priority a) - priorityOrder (priority b)
      in if pDiff \<noteq> 0 then pDiff else tokenSavings b - tokenSavings a)"

text \<open>
  \<open>reductionPercent\<close> is \<open>Math.round((bloatTokens / totalTokens) * 100)\<close> on JavaScript
  numbers, which are IEEE 754 doubles. Token counts are integers below \<open>2^53\<close> and so
  are doubles; the quotient and the product are each the exact result rounded to the
  nearest double, a tie going to the even significand. A double other than 0 is
  \<open>m * 2^e\<close> with \<open>2^52 \<le> |m| < 2^53\<close>; \<open>e\<close> stays far inside the exponent range here, so
  there is neither overflow nor underflow. \<open>Math.round(x)\<close> is \<open>\<lfloor>x + 1/2\<rfloor>\<close>.
\<close>

definition scale2 :: "rat \<Rightarrow> int \<Rightarrow> rat" where
  "scale2 x e = (if 0 \<le> e then x * 2 ^ nat e else x / 2 ^ nat (- e))"

text \<open>For \<open>a > 0\<close>, the \<open>k\<close> with \<open>2^k \<le> a < 2^(k+1)\<close>.\<close>

definition floor_log2 :: "rat \<Rightarrow> int" where
  "floor_log2 a =
     (let (p, q) = quotient_of a;
          k = bitlen p - bitlen q
      in if scale2 1 k \<le> a then k else k - 1)"

definition round_half_even :: "rat \<Rightarrow> int" where
  "round_half_even x =
     (let f = \<lfloor>x\<rfloor>; d = x - of_int f
      in if d < 1 / 2 then f
         else if 1 / 2 < d then f + 1
         else if even f then f else f + 1)"

definition to_double :: "rat \<Rightarrow> rat" where
  "to_double x =
     (if x = 0 then 0
      else
        (let a = \<bar>x\<bar>;
             e = floor_log2 a - 52;
             m = round_half_even (scale2 a (- e))
         in sgn x * scale2 (of_int m) e))"

definition js_divide :: "rat \<Rightarrow> rat \<Rightarrow> rat" where
  "js_divide a b = to_double (a / b)"

definition js_times :: "rat \<Rightarrow> rat \<Rightarrow> rat" where
  "js_times a b = to_double (a * b)"

definition Math_round :: "rat \<Rightarrow> int" where
  "Math_round x = \<lfloor>x + 1 / 2\<rfloor>"

record analysis =
  suggestions :: "suggestion list"
  bloatFiles_a :: "bloat_file list"
  largeFiles_a :: "file_record list"
  bloatTokens :: int
  cleanTokens :: int
  totalTokens_a :: int
  reductionPercent :: int

definition analyze :: "scan_result \<Rightarrow> analysis" where
  "analyze scanResult =
     (let st = classify (files scanResult);
          sortedSuggestions = js_sort compare_suggestions (map snd (suggestions_map st));
          largeSorted = js_sort (\<lambda>a b. tokens b - tokens a) (largeFiles st);
          bloatTokens_v = foldl (\<lambda>sum f. sum + tokens f) 0 (bloatFiles st);
          cleanTokens_v = totalTokens scanResult - bloatTokens_v
      in \<lparr> suggestions = sortedSuggestions,
           bloatFiles_a = bloatFiles st,
           largeFiles_a = take 20 largeSorted,
           bloatTokens = bloatTokens_v,
           cleanTokens = cleanTokens_v,
           totalTokens_a = totalTokens scanResult,
           reductionPercent =
             (if totalTokens scanResult > 0
              then Math_round
                     (js_times (js_divide (of_int bloatTokens_v) (of_int (totalTokens scanResult))) 100)
              else 0) \<rparr>)"


section \<open>Notions the properties are stated with\<close>

text \<open>
  The record that the \<open>entry.isFile()\<close> branch pushes for an entry: the one \<open>visit_file\<close>
  appends, read off a run from the empty state.
\<close>

definition made_record :: "string \<Rightarrow> string \<Rightarrow> string \<Rightarrow> fsnode \<Rightarrow> file_record" where
  "made_record fullPath relPath_e name_e node =
     last (files (visit_file fullPath relPath_e name_e node
       \<lparr> files = [], ignoredCount = 0, binaryCount = 0 \<rparr>))"

text \<open>
  A candidate is a direct child of a directory when its segments are those of the
  directory and one more, which is not empty.
\<close>

definition direct_child :: "string \<Rightarrow> string \<Rightarrow> bool" where
  "direct_child dir cand =
     (let ds = split CHR ''/'' dir; cs = split CHR ''/'' cand
      in length cs = length ds + 1 \<and> take (length ds) cs = ds \<and> last cs \<noteq> [])"

text \<open>The ancestor directories of a relative path: what stands before each of its \<open>/\<close>.\<close>

definition ancestors :: "string \<Rightarrow> string list" where
  "ancestors p = map (\<lambda>i. take i p) (filter (\<lambda>i. p ! i = CHR ''/'') [0..<length p])"

text \<open>No entry name of the tree has a \<open>/\<close>, as on every file system.\<close>

fun names_ok :: "fsnode \<Rightarrow> bool"
and names_ok_entries :: "(string \<times> fsnode) list \<Rightarrow> bool" where
  "names_ok (Dir l es) = names_ok_entries es"
| "names_ok (File sz cs r) = True"
| "names_ok (Symlink t) = True"
| "names_ok Special = True"
| "names_ok_entries [] = True"
| "names_ok_entries ((name_e, node) # rest) =
     (CHR ''/'' \<notin> set name_e \<and> names_ok node \<and> names_ok_entries rest)"

definition tree_names_ok :: "file_system \<Rightarrow> bool" where
  "tree_names_ok fs =
     (case lookup_path (at_rootDir fs) of None \<Rightarrow> True | Some n \<Rightarrow> names_ok n)"

text \<open>The files a rule is the first match of: the contributing set of its suggestion.\<close>

definition contributing :: "bloat_rule \<Rightarrow> file_record list \<Rightarrow> file_record list" where
  "contributing bp fs = filter (\<lambda>f. first_rule f = Some bp) fs"

text \<open>A bloat file: the record with the reason and the category of the rule it matched.\<close>

definition tag :: "file_record \<Rightarrow> bloat_rule \<Rightarrow> bloat_file" where
  "tag f bp = file_record.extend f \<lparr> bloatReason = reason bp, bloatCategory = category bp \<rparr>"

text \<open>The key of a rule in the \<open>Map\<close> of suggestions.\<close>

definition rule_key :: "bloat_rule \<Rightarrow> string" where
  "rule_key bp = toString (pattern bp)"

text \<open>
  Invariants of the loops, for the proofs: a path whose ancestors are all kept, a
  directory the walk may be in, a suggestion that counts the contributing set of its
  rule, a map of such suggestions, and a state whose suggestions add up to its bloat
  files.
\<close>

definition ancestors_kept :: "regexp_engine \<Rightarrow> string list \<Rightarrow> string \<Rightarrow> bool" where
  "ancestors_kept re_test P rp = (\<forall>a\<in>set (ancestors rp). isIgnored re_test a P = Inr False)"

definition dir_kept :: "regexp_engine \<Rightarrow> string list \<Rightarrow> string list \<Rightarrow> bool" where
  "dir_kept re_test P below =
     (below = [] \<or>
      (ancestors_kept re_test P (join_slash below) \<and>
       isIgnored re_test (join_slash below) P = Inr False))"

definition sugg_ok :: "bloat_rule \<Rightarrow> file_record list \<Rightarrow> suggestion \<Rightarrow> bool" where
  "sugg_ok bp fs s =
     (reason s = reason bp \<and> category s = category bp \<and> priority s = priority bp \<and>
      fileCount s = int (length (contributing bp fs)) \<and>
      tokenSavings s = sum_list (map tokens (contributing bp fs)))"

definition map_ok :: "file_record list \<Rightarrow> suggestion_map \<Rightarrow> bool" where
  "map_ok fs m =
     (distinct (map fst m) \<and>
      fst ` set m \<subseteq> rule_key ` set BLOAT_PATTERNS \<and>
      (\<forall>bp\<in>set BLOAT_PATTERNS.
         case map_of m (rule_key bp) of
           None \<Rightarrow> contributing bp fs = []
         | Some s \<Rightarrow> sugg_ok bp fs s))"

definition sums_ok :: "analysis_state \<Rightarrow> bool" where
  "sums_ok st =
     (sum_list (map (fileCount \<circ> snd) (suggestions_map st)) = int (length (bloatFiles st)) \<and>
      sum_list (map (tokenSavings \<circ> snd) (suggestions_map st)) =
        sum_list (map tokens (bloatFiles st)))"


section \<open>Inputs for the examples\<close>

text \<open>
  An engine to run the examples with. It is one value of the parameter and no property
  is about it. It gives the verdict of the JavaScript engine on the sources that
  \<open>minimatch\<close> builds from a pattern of plain characters, dots and stars: \<open>^\<close>, then
  \<open>\.\<close> for a dot, \<open>.*\<close> for any run of characters that are not line terminators, a
  plain character for itself, then \<open>$\<close>. On every other source it answers as for a
  \<open>SyntaxError\<close>, which is the JavaScript engine's answer for some of them only; the one
  such source the examples ask it about is \<open>^.*($\<close>, where the group is not closed and
  the constructor does throw.
\<close>

datatype re_item = Lit char | AnyStar

definition regexp_syntax_char :: "char \<Rightarrow> bool" where
  "regexp_syntax_char c = (c \<in> set (backslash # ''^$.*+?()[]{}|''))"

fun re_parse :: "string \<Rightarrow> re_item list option" where
  "re_parse [] = Some []"
| "re_parse (c # cs) =
     (if c = backslash then
        (case cs of
           [] \<Rightarrow> None
         | d # ds \<Rightarrow> if d = CHR ''.'' then map_option (Cons (Lit d)) (re_parse ds) else None)
      else if c = CHR ''.'' then
        (case cs of
           [] \<Rightarrow> None
         | d # ds \<Rightarrow> if d = CHR ''*'' then map_option (Cons AnyStar) (re_parse ds) else None)
      else if regexp_syntax_char c then None
      else map_option (Cons (Lit c)) (re_parse cs))"

definition line_terminator :: "char \<Rightarrow> bool" where
  "line_terminator c = (c = CHR 0x0A \<or> c = CHR 0x0D)"

fun re_match :: "re_item list \<Rightarrow> string \<Rightarrow> bool" where
  "re_match [] s = (s = [])"
| "re_match (Lit c # r) s =
     (case s of [] \<Rightarrow> False | x # xs \<Rightarrow> x = c \<and> re_match r xs)"
| "re_match (AnyStar # r) s =
     (re_match r s \<or>
      (case s of [] \<Rightarrow> False
               | x # xs \<Rightarrow> \<not> line_terminator x \<and> re_match (AnyStar # r) xs))"

definition example_engine :: regexp_engine where
  "example_engine src str =
     (case src of
        [] \<Rightarrow> None
      | c # rest \<Rightarrow>
          if c = CHR ''^'' \<and> rest \<noteq> [] \<and> last rest = CHR ''$''
          then map_option (\<lambda>items. re_match items str) (re_parse (butlast rest))
          else None)"

definition no_options :: scan_options where
  "no_options = \<lparr> verbose = None, respectGitignore = None \<rparr>"

text \<open>Nothing at \<open>rootDir\<close>.\<close>

definition missing_fs :: file_system where
  "missing_fs = \<lparr> at_rootDir = None, at_claudeignore = None, at_gitignore = None \<rparr>"

text \<open>A regular file at \<open>rootDir\<close>.\<close>

definition file_root_fs :: file_system where
  "file_root_fs =
     \<lparr> at_rootDir = Some (File (Some 3) ''abc'' True), at_claudeignore = None,
       at_gitignore = None \<rparr>"

text \<open>
  \<open>rootDir\<close> is \<open>d/missing/..\<close> and \<open>d\<close> has a \<open>.claudeignore\<close>: listing \<open>rootDir\<close> fails,
  and the joined path \<open>d/.claudeignore\<close> is there.
\<close>

definition dotdot_fs :: file_system where
  "dotdot_fs =
     \<lparr> at_rootDir = None, at_claudeignore = Some (File (Some 4) ''tmp/'' True),
       at_gitignore = None \<rparr>"

text \<open>A directory whose \<open>.gitignore\<close> has the one rule \<open>*(\<close>.\<close>

definition bad_rule_fs :: file_system where
  "bad_rule_fs =
     \<lparr> at_rootDir = Some (Dir True [(''.gitignore'', File (Some 2) ''*('' True),
                                   (''a.txt'', File (Some 3) ''abc'' True)]),
       at_claudeignore = None,
       at_gitignore = Some (File (Some 2) ''*('' True) \<rparr>"

definition picture_fs :: file_system where
  "picture_fs =
     \<lparr> at_rootDir = Some (Dir True [(''IMAGE.PNG'', File (Some 2000) ''abcdefgh'' True),
                                   (''report.txt'', File (Some 9) ''abcdefghi'' True)]),
       at_claudeignore = None, at_gitignore = None \<rparr>"

text \<open>A project with a \<open>.gitignore\<close> of two rules, one of them with a star.\<close>

definition project_fs :: file_system where
  "project_fs =
     \<lparr> at_rootDir = Some (Dir True
         [(''.git'', Dir True [(''HEAD'', File (Some 4) ''main'' True)]),
          (''.gitignore'', File (Some 10) (''*.log'' @ [CHR 0x0A] @ ''tmp/'') True),
          (''debug.log'', File (Some 3) ''abc'' True),
          (''src'', Dir True [(''index.js'', File (Some 8) ''let a=1;'' True)])]),
       at_claudeignore = None,
       at_gitignore = Some (File (Some 10) (''*.log'' @ [CHR 0x0A] @ ''tmp/'') True) \<rparr>"

definition notes_fs :: file_system where
  "notes_fs =
     \<lparr> at_rootDir = Some (Dir True [(''notes.txt'', File None ''abcdefgh'' True)]),
       at_claudeignore = None, at_gitignore = None \<rparr>"

definition secret_fs :: file_system where
  "secret_fs =
     \<lparr> at_rootDir = Some (Dir True [(''secret.txt'', File (Some 5) ''abcde'' False)]),
       at_claudeignore = None, at_gitignore = None \<rparr>"

definition dist_scan :: scan_result where
  "dist_scan =
     \<lparr> files =
         [\<lparr> path = ''/p/dist/a.js'', relPath = ''dist/a.js'', name = ''a.js'', ext = ''.js'',
            size_f = 100, tokens = 25, isBinary = False \<rparr>,
          \<lparr> path = ''/p/src/index.js'', relPath = ''src/index.js'', name = ''index.js'',
            ext = ''.js'', size_f = 40, tokens = 10, isBinary = False \<rparr>,
          \<lparr> path = ''/p/dist/b.log'', relPath = ''dist/b.log'', name = ''b.log'', ext = ''.log'',
            size_f = 4, tokens = 1, isBinary = False \<rparr>],
       ignoredCount = 0, binaryCount = 0, totalTokens = 36, totalBytes = 144,
       rootDir = ''/p'', hasClaudeignore = False, hasGitignore = False \<rparr>"

text \<open>One file for each of five rules, of all four tiers, two of them of tier high.\<close>

definition tiers_scan :: scan_result where
  "tiers_scan =
     \<lparr> files =
         [\<lparr> path = ''/p/fixtures/a.json'', relPath = ''fixtures/a.json'', name = ''a.json'',
            ext = ''.json'', size_f = 28, tokens = 7, isBinary = False \<rparr>,
          \<lparr> path = ''/p/coverage/lcov.info'', relPath = ''coverage/lcov.info'', name = ''lcov.info'',
            ext = ''.info'', size_f = 20, tokens = 5, isBinary = False \<rparr>,
          \<lparr> path = ''/p/.idea/ws.xml'', relPath = ''.idea/ws.xml'', name = ''ws.xml'',
            ext = ''.xml'', size_f = 8, tokens = 2, isBinary = False \<rparr>,
          \<lparr> path = ''/p/.vite/deps.js'', relPath = ''.vite/deps.js'', name = ''deps.js'',
            ext = ''.js'', size_f = 36, tokens = 9, isBinary = False \<rparr>,
          \<lparr> path = ''/p/node_modules/x.js'', relPath = ''node_modules/x.js'', name = ''x.js'',
            ext = ''.js'', size_f = 12, tokens = 3, isBinary = False \<rparr>],
       ignoredCount = 0, binaryCount = 0, totalTokens = 26, totalBytes = 104,
       rootDir = ''/p'', hasClaudeignore = False, hasGitignore = False \<rparr>"


section \<open>Properties\<close>

subsection \<open>Sorting\<close>

lemma js_insert_set: "set (js_insert cmp x xs) = insert x (set xs)"
  by (induction xs) auto

lemma js_sort_set: "set (js_sort cmp xs) = set xs"
  unfolding js_sort_def by (induction xs) (auto simp: js_insert_set)

lemma js_insert_sum:
  "sum_list (map g (js_insert cmp x xs)) = g x + sum_list (map (g :: 'a \<Rightarrow> int) xs)"
  by (induction xs) auto

lemma js_sort_sum: "sum_list (map g (js_sort cmp xs)) = sum_list (map (g :: 'a \<Rightarrow> int) xs)"
  unfolding js_sort_def by (induction xs) (auto simp: js_insert_sum)

lemma js_insert_sorted:
  assumes tot: "\<And>a b. cmp a b \<le> 0 \<or> cmp b a \<le> 0"
      and tr: "\<And>a b c. cmp a b \<le> 0 \<Longrightarrow> cmp b c \<le> 0 \<Longrightarrow> cmp a c \<le> 0"
  shows "sorted_wrt (\<lambda>a b. cmp a b \<le> 0) xs \<Longrightarrow> sorted_wrt (\<lambda>a b. cmp a b \<le> 0) (js_insert cmp x xs)"
proof (induction xs)
  case Nil
  then show ?case by simp
next
  case (Cons y ys)
  show ?case
  proof (cases "cmp x y \<le> 0")
    case True
    with Cons.prems tr show ?thesis by auto
  next
    case False
    with tot have "cmp y x \<le> 0" by blast
    with False Cons show ?thesis by (auto simp: js_insert_set)
  qed
qed

lemma js_sort_sorted:
  assumes tot: "\<And>a b. cmp a b \<le> 0 \<or> cmp b a \<le> 0"
      and tr: "\<And>a b c. cmp a b \<le> 0 \<Longrightarrow> cmp b c \<le> 0 \<Longrightarrow> cmp a c \<le> 0"
  shows "sorted_wrt (\<lambda>a b. cmp a b \<le> 0) (js_sort cmp xs)"
  unfolding js_sort_def
  by (induction xs) (auto intro: js_insert_sorted [OF tot tr])

lemma compare_suggestions_le:
  "compare_suggestions a b \<le> 0 \<longleftrightarrow>
     priorityOrder (priority a) < priorityOrder (priority b) \<or>
     (priorityOrder (priority a) = priorityOrder (priority b) \<and> tokenSavings b \<le> tokenSavings a)"
  by (auto simp: compare_suggestions_def Let_def)

lemma foldl_sum: "foldl (\<lambda>sum f. sum + g f) a xs = a + sum_list (map g xs)"
  by (induction xs arbitrary: a) (auto simp: algebra_simps)

lemma tiers_suggestions:
  "suggestions (analyze tiers_scan) =
     [\<lparr> pattern = ''node_modules/'', reason = ''npm packages -- never needed in context'',
        category = dependencies, priority = critical, tokenSavings = 3, fileCount = 1 \<rparr>,
      \<lparr> pattern = ''.vite/'', reason = ''Vite cache'', category = build, priority = high,
        tokenSavings = 9, fileCount = 1 \<rparr>,
      \<lparr> pattern = ''coverage/'', reason = ''test coverage reports -- generated data'',
        category = coverage, priority = high, tokenSavings = 5, fileCount = 1 \<rparr>,
      \<lparr> pattern = ''.idea/'', reason = ''JetBrains IDE config -- not project code'',
        category = ide, priority = medium, tokenSavings = 2, fileCount = 1 \<rparr>,
      \<lparr> pattern = ''fixtures/'', reason = ''test fixtures -- usually large data files'',
        category = test, priority = low, tokenSavings = 7, fileCount = 1 \<rparr>]"
  by code_simp

text \<open>
  C6. The priority index is 0 for critical, 1 for high, 2 for medium and 3 for low, and
  in every analysis result the suggestions are in order: of any two, the earlier has
  the smaller priority index, or the same index and at least the token savings of the
  later.
\<close>

theorem suggestions_sorted:
  "priorityOrder critical = 0 \<and> priorityOrder high = 1 \<and> priorityOrder medium = 2
   \<and> priorityOrder low = 3
   \<and> sorted_wrt
         (\<lambda>a b. priorityOrder (priority a) < priorityOrder (priority b) \<or>
            (priorityOrder (priority a) = priorityOrder (priority b) \<and>
             tokenSavings b \<le> tokenSavings a))
         (suggestions (analyze scanResult))"
proof -
  have "sorted_wrt (\<lambda>a b. compare_suggestions a b \<le> 0) (js_sort compare_suggestions xs)" for xs
    by (rule js_sort_sorted) (auto simp: compare_suggestions_le)
  then have "sorted_wrt
         (\<lambda>a b. priorityOrder (priority a) < priorityOrder (priority b) \<or>
            (priorityOrder (priority a) = priorityOrder (priority b) \<and>
             tokenSavings b \<le> tokenSavings a))
         (suggestions (analyze scanResult))"
    by (simp add: analyze_def Let_def compare_suggestions_le)
  then show ?thesis by (simp add: priorityOrder_def)
qed

text \<open>
  On five suggestions of all four tiers, given in another order: critical comes first,
  then the two of tier high with the larger savings first, then medium, then low.
\<close>

theorem suggestions_sorted_witness:
  "suggestions (analyze tiers_scan) =
     [\<lparr> pattern = ''node_modules/'', reason = ''npm packages -- never needed in context'',
        category = dependencies, priority = critical, tokenSavings = 3, fileCount = 1 \<rparr>,
      \<lparr> pattern = ''.vite/'', reason = ''Vite cache'', category = build, priority = high,
        tokenSavings = 9, fileCount = 1 \<rparr>,
      \<lparr> pattern = ''coverage/'', reason = ''test coverage reports -- generated data'',
        category = coverage, priority = high, tokenSavings = 5, fileCount = 1 \<rparr>,
      \<lparr> pattern = ''.idea/'', reason = ''JetBrains IDE config -- not project code'',
        category = ide, priority = medium, tokenSavings = 2, fileCount = 1 \<rparr>,
      \<lparr> pattern = ''fixtures/'', reason = ''test fixtures -- usually large data files'',
        category = test, priority = low, tokenSavings = 7, fileCount = 1 \<rparr>]
   \<and> priorityOrder critical < priorityOrder high
   \<and> priorityOrder high < priorityOrder medium
   \<and> priorityOrder medium < priorityOrder low"
  using suggestions_sorted [of tiers_scan] by (simp add: tiers_suggestions)

subsection \<open>Totals\<close>

text \<open>
  C8. In every analysis result the grand token total, which is the total of the scan, is
  the bloat token total plus the clean token total, as integers.
\<close>

theorem token_conservation:
  "totalTokens_a (analyze scanResult) =
     bloatTokens (analyze scanResult) + cleanTokens (analyze scanResult)
   \<and> totalTokens_a (analyze scanResult) = totalTokens scanResult"
  by (simp add: analyze_def Let_def)

subsection \<open>The record of a file entry\<close>

lemma visit_file_files:
  "files (visit_file fp rp n node st) = files st @ [made_record fp rp n node]"
  by (simp add: made_record_def visit_file_def Let_def split: prod.splits)

lemma made_record_fields:
  "path (made_record fp rp n node) = fp"
  "relPath (made_record fp rp n node) = rp"
  "name (made_record fp rp n node) = n"
  "ext (made_record fp rp n node) = toLowerCase (extname n)"
  "isBinary (made_record fp rp n node) = (toLowerCase (extname n) \<in> set BINARY_EXTENSIONS)"
  by (simp_all add: made_record_def visit_file_def Let_def split: prod.splits)

lemma made_record_size_tokens:
  "size_f (made_record fp rp n (File sz cs rd)) = (case sz of None \<Rightarrow> 0 | Some b \<Rightarrow> b)"
  "tokens (made_record fp rp n (File sz cs rd)) =
     (if sz \<noteq> None \<and> rd \<and> toLowerCase (extname n) \<notin> set BINARY_EXTENSIONS
      then estimateTokens (int (length cs)) else 0)"
  by (auto simp: made_record_def visit_file_def Let_def statSync_size_def readFileSync_def
      lookup_path_def split: prod.splits option.splits sum.splits)

lemma made_record_binary_tokens:
  "isBinary (made_record fp rp n node) \<Longrightarrow> tokens (made_record fp rp n node) = 0"
  by (auto simp: made_record_def visit_file_def Let_def split: prod.splits sum.splits if_splits)

subsection \<open>Invariants of the walk\<close>

lemma walk_inv:
  assumes v: "\<And>fp rp n node st. I st \<Longrightarrow> I (visit_file fp rp n node st)"
      and g: "\<And>st. I st \<Longrightarrow> I (st\<lparr>ignoredCount := ignoredCount st + 1\<rparr>)"
  shows "walk re P d b node st = Inr st' \<Longrightarrow> I st \<Longrightarrow> I st'"
    and "walk_entries re P d b es st = Inr st' \<Longrightarrow> I st \<Longrightarrow> I st'"
proof (induction re P d b node st and re P d b es st arbitrary: st' and st'
    rule: walk_walk_entries.induct)
  case (7 re_test allPatterns dir below name_e node rest st)
  from "7.prems"(1) show ?case
    apply (simp add: Let_def and_then_def split: sum.splits if_splits)
    using 7 v g apply auto
    done
qed auto

lemma walk_root_inv:
  assumes v: "\<And>fp rp n node st. I st \<Longrightarrow> I (visit_file fp rp n node st)"
      and g: "\<And>st. I st \<Longrightarrow> I (st\<lparr>ignoredCount := ignoredCount st + 1\<rparr>)"
  shows "walk_root re P R root_node st = Inr st' \<Longrightarrow> I st \<Longrightarrow> I st'"
  unfolding walk_root_def
  by (auto split: option.splits intro: walk_inv(1) [where I = I, OF v g])

lemma walk_files_grow:
  "walk_entries re P d b es st = Inr st' \<Longrightarrow> x \<in> set (files st) \<Longrightarrow> x \<in> set (files st')"
  by (rule walk_inv(2) [where I = "\<lambda>s. x \<in> set (files s)"]) (auto simp: visit_file_files)

text \<open>
  The walk is the \<open>try\<close> around \<open>readdirSync\<close>, and a kept file entry is one call of
  \<open>visit_file\<close>; every record of the inventory is the \<open>made_record\<close> of an entry.
\<close>

lemma walk_is_try_readdirSync:
  "isDirectory n \<Longrightarrow>
     walk re P d b n st =
       (case readdirSync (Some n) of Inl e \<Rightarrow> Inr st | Inr es \<Rightarrow> walk_entries re P d b es st)"
  by (cases n) (auto simp: isDirectory_def readdirSync_def lookup_path_def)

lemma walk_root_is_try_readdirSync:
  "walk_root re P R root_node st =
     (case readdirSync root_node of Inl e \<Rightarrow> Inr st | Inr es \<Rightarrow> walk_entries re P R [] es st)"
proof (cases "lookup_path root_node")
  case None
  then show ?thesis by (simp add: walk_root_def readdirSync_def)
next
  case (Some n)
  then show ?thesis by (cases n) (auto simp: walk_root_def readdirSync_def)
qed

lemma walk_entries_file_step:
  assumes "isIgnored re (relative_below b nm) P = Inr False"
  shows "walk_entries re P dir b ((nm, File sz cs rd) # rest) st =
           walk_entries re P dir b rest
             (visit_file (path_join dir nm) (relative_below b nm) nm (File sz cs rd) st)"
  using assms by (simp add: Let_def and_then_def isDirectory_def isFile_def)

lemma walk_records:
  assumes "walk_root re P R root_node \<lparr>files = [], ignoredCount = 0, binaryCount = 0\<rparr> = Inr st"
      and "f \<in> set (files st)"
  shows "\<exists>fp rp n e. f = made_record fp rp n e"
proof -
  let ?I = "\<lambda>s. \<forall>f\<in>set (files s). \<exists>fp rp n e. f = made_record fp rp n e"
  have "?I st"
    by (rule walk_root_inv [where I = ?I, OF _ _ assms(1)]) (auto simp: visit_file_files)
  with assms(2) show ?thesis by blast
qed

subsection \<open>Errors\<close>

lemma some_minimatch_error: "some_minimatch re parts p = Inl e \<Longrightarrow> e = SyntaxError"
  by (induction parts) (auto simp: minimatch_def split: sum.splits if_splits option.splits)

lemma matchesPattern_error: "matchesPattern re rp p = Inl e \<Longrightarrow> e = SyntaxError"
  by (auto simp: matchesPattern_def Let_def split: if_splits dest: some_minimatch_error)

lemma isIgnored_error: "isIgnored re rp P = Inl e \<Longrightarrow> e = SyntaxError"
  by (induction P) (auto split: sum.splits if_splits dest: matchesPattern_error)

lemma walk_error:
  "walk re P d b node st = Inl e \<Longrightarrow> e = SyntaxError"
  "walk_entries re P d b es st = Inl e \<Longrightarrow> e = SyntaxError"
proof (induction re P d b node st and re P d b es st rule: walk_walk_entries.induct)
  case (7 re_test allPatterns dir below name_e node rest st)
  from "7.prems" show ?case
    apply (simp add: Let_def and_then_def split: sum.splits if_splits)
    using 7 isIgnored_error apply auto
    done
qed auto

text \<open>
  C1, as the code has it. When the root does not exist or is not a directory,
  \<open>readdirSync\<close> throws inside the \<open>try\<close> of \<open>walk\<close> and the \<open>catch\<close> returns: \<open>scan\<close> does
  not fail, it returns the empty inventory with every total and counter 0, and the two
  ignore-file flags as \<open>existsSync\<close> gives them on the joined paths. An error that does
  leave \<open>scan\<close>, for whatever root, is the \<open>SyntaxError\<close> of the regular expression that
  \<open>minimatch\<close> builds from a rule; no error of the file system leaves it.
\<close>

theorem scan_invalid_root_returns_empty:
  "(readdirSync (at_rootDir fs) = Inl ENOENT \<or> readdirSync (at_rootDir fs) = Inl ENOTDIR \<longrightarrow>
      scan re_test fs R opts =
        Inr \<lparr>files = [], ignoredCount = 0, binaryCount = 0, totalTokens = 0, totalBytes = 0,
             rootDir = R, hasClaudeignore = existsSync (at_claudeignore fs),
             hasGitignore = existsSync (at_gitignore fs)\<rparr>)
   \<and> (\<forall>e. scan re_test fs R opts = Inl e \<longrightarrow> e = SyntaxError)"
proof
  show "readdirSync (at_rootDir fs) = Inl ENOENT \<or> readdirSync (at_rootDir fs) = Inl ENOTDIR \<longrightarrow>
      scan re_test fs R opts =
        Inr \<lparr>files = [], ignoredCount = 0, binaryCount = 0, totalTokens = 0, totalBytes = 0,
             rootDir = R, hasClaudeignore = existsSync (at_claudeignore fs),
             hasGitignore = existsSync (at_gitignore fs)\<rparr>"
    by (auto simp: readdirSync_def scan_def walk_root_def Let_def and_then_def js_sort_def
        split: option.splits fsnode.splits if_splits)
  have "e = SyntaxError" if "scan re_test fs R opts = Inl e" for e
    using that
    by (auto simp: scan_def Let_def and_then_def walk_root_def
        split: sum.splits option.splits dest: walk_error)
  then show "\<forall>e. scan re_test fs R opts = Inl e \<longrightarrow> e = SyntaxError"
    by blast
qed

text \<open>
  A root that is missing, a root that is a regular file, and the root \<open>d/missing/..\<close>,
  for which the flag of \<open>.claudeignore\<close> is true.
\<close>

theorem scan_invalid_root_witness:
  "scan example_engine missing_fs ''/no/such/dir'' no_options =
     Inr \<lparr>files = [], ignoredCount = 0, binaryCount = 0, totalTokens = 0, totalBytes = 0,
          rootDir = ''/no/such/dir'', hasClaudeignore = False, hasGitignore = False\<rparr>
   \<and> scan example_engine file_root_fs ''/p/a.txt'' no_options =
     Inr \<lparr>files = [], ignoredCount = 0, binaryCount = 0, totalTokens = 0, totalBytes = 0,
          rootDir = ''/p/a.txt'', hasClaudeignore = False, hasGitignore = False\<rparr>
   \<and> scan example_engine dotdot_fs ''d/missing/..'' no_options =
     Inr \<lparr>files = [], ignoredCount = 0, binaryCount = 0, totalTokens = 0, totalBytes = 0,
          rootDir = ''d/missing/..'', hasClaudeignore = True, hasGitignore = False\<rparr>"
proof -
  have r: "readdirSync (at_rootDir missing_fs) = Inl ENOENT"
    "readdirSync (at_rootDir file_root_fs) = Inl ENOTDIR"
    "readdirSync (at_rootDir dotdot_fs) = Inl ENOENT"
    by code_simp+
  have e: "existsSync (at_claudeignore missing_fs) = False"
    "existsSync (at_gitignore missing_fs) = False"
    "existsSync (at_claudeignore file_root_fs) = False"
    "existsSync (at_gitignore file_root_fs) = False"
    "existsSync (at_claudeignore dotdot_fs) = True"
    "existsSync (at_gitignore dotdot_fs) = False"
    by code_simp+
  from scan_invalid_root_returns_empty [of missing_fs example_engine "''/no/such/dir''" no_options]
       scan_invalid_root_returns_empty [of file_root_fs example_engine "''/p/a.txt''" no_options]
       scan_invalid_root_returns_empty [of dotdot_fs example_engine "''d/missing/..''" no_options]
  show ?thesis by (simp add: r e)
qed

text \<open>
  The claim as it stands fails twice. A scan of a root that does not exist is no error.
  And a scan of a directory that can be listed fails with another error: the rule \<open>*(\<close>
  of its \<open>.gitignore\<close> becomes the source \<open>^.*($\<close>, on which the constructor throws.
\<close>

theorem scan_errors_counterexample:
  "\<not> isl (scan example_engine missing_fs ''/no/such/dir'' no_options)
   \<and> \<not> isl (readdirSync (at_rootDir bad_rule_fs))
   \<and> scan example_engine bad_rule_fs ''/p'' no_options = Inl SyntaxError"
  by code_simp

subsection \<open>Entries whose I/O fails\<close>

text \<open>
  C2, as the code has it. A file entry that is kept and whose \<open>statSync\<close> or
  \<open>readFileSync\<close> throws is still recorded: the walk goes on with the remaining entries
  from the state that has its record, with \<open>tokens\<close> 0 and \<open>size\<close> 0 when \<open>statSync\<close>
  threw and the size \<open>statSync\<close> gave otherwise, and the record is in the inventory at
  the end. A directory entry whose listing fails adds nothing, and the walk goes on.
\<close>

theorem failed_io_still_recorded:
  assumes "isIgnored re_test (relative_below below nm) P = Inr False"
      and "sz = None \<or> \<not> rd"
  shows "walk_entries re_test P dir below ((nm, File sz cs rd) # rest) st =
           walk_entries re_test P dir below rest
             (visit_file (path_join dir nm) (relative_below below nm) nm (File sz cs rd) st)
       \<and> files (visit_file (path_join dir nm) (relative_below below nm) nm (File sz cs rd) st) =
           files st @
             [\<lparr>path = path_join dir nm, relPath = relative_below below nm, name = nm,
               ext = toLowerCase (extname nm),
               size_f = (case sz of None \<Rightarrow> 0 | Some b \<Rightarrow> b), tokens = 0,
               isBinary = (toLowerCase (extname nm) \<in> set BINARY_EXTENSIONS)\<rparr>]
       \<and> (\<forall>st'. walk_entries re_test P dir below ((nm, File sz cs rd) # rest) st = Inr st' \<longrightarrow>
             \<lparr>path = path_join dir nm, relPath = relative_below below nm, name = nm,
               ext = toLowerCase (extname nm),
               size_f = (case sz of None \<Rightarrow> 0 | Some b \<Rightarrow> b), tokens = 0,
               isBinary = (toLowerCase (extname nm) \<in> set BINARY_EXTENSIONS)\<rparr> \<in> set (files st'))
       \<and> walk_entries re_test P dir below ((nm, Dir False es) # rest) st =
           walk_entries re_test P dir below rest st"
proof -
  let ?fp = "path_join dir nm"
  let ?rp = "relative_below below nm"
  let ?r = "\<lparr>path = ?fp, relPath = ?rp, name = nm, ext = toLowerCase (extname nm),
               size_f = (case sz of None \<Rightarrow> 0 | Some b \<Rightarrow> b), tokens = 0,
               isBinary = (toLowerCase (extname nm) \<in> set BINARY_EXTENSIONS)\<rparr>"
  have 1: "walk_entries re_test P dir below ((nm, File sz cs rd) # rest) st =
           walk_entries re_test P dir below rest (visit_file ?fp ?rp nm (File sz cs rd) st)"
    using assms(1) by (rule walk_entries_file_step)
  have m: "made_record ?fp ?rp nm (File sz cs rd) = ?r"
    using assms(2) by (intro file_record.equality) (auto simp: made_record_fields made_record_size_tokens)
  have 2: "files (visit_file ?fp ?rp nm (File sz cs rd) st) = files st @ [?r]"
    by (simp add: visit_file_files m)
  have 3: "?r \<in> set (files st')"
    if "walk_entries re_test P dir below ((nm, File sz cs rd) # rest) st = Inr st'" for st'
    using that unfolding 1 by (rule walk_files_grow) (simp add: 2)
  have 4: "walk_entries re_test P dir below ((nm, Dir False es) # rest) st =
           walk_entries re_test P dir below rest st"
    using assms(1) by (simp add: Let_def and_then_def isDirectory_def)
  from 1 2 3 4 show ?thesis by blast
qed

text \<open>
  In a project whose rules include \<open>*.log\<close>, with the root given as \<open>/p/\<close>: the entry
  \<open>notes.txt\<close> is kept, its \<open>statSync\<close> throws, and its record has the path \<open>/p/notes.txt\<close>.
\<close>

theorem failed_io_still_recorded_witness:
  "isIgnored example_engine (relative_below [] ''notes.txt'') (DEFAULT_IGNORE @ [''*.log'']) = Inr False
   \<and> files (visit_file (path_join ''/p/'' ''notes.txt'') (relative_below [] ''notes.txt'')
        ''notes.txt'' (File None ''abcdefgh'' True)
        \<lparr>files = [], ignoredCount = 0, binaryCount = 0\<rparr>) =
       [\<lparr>path = ''/p/notes.txt'', relPath = ''notes.txt'', name = ''notes.txt'',
         ext = ''.txt'', size_f = 0, tokens = 0, isBinary = False\<rparr>]"
proof -
  have h: "isIgnored example_engine (relative_below [] ''notes.txt'')
             (DEFAULT_IGNORE @ [''*.log'']) = Inr False"
    by code_simp
  have d: "(None :: int option) = None \<or> \<not> True" by simp
  have v: "path_join ''/p/'' ''notes.txt'' = ''/p/notes.txt''"
    "relative_below [] ''notes.txt'' = ''notes.txt''"
    "toLowerCase (extname ''notes.txt'') = ''.txt''"
    "(''.txt'' \<in> set BINARY_EXTENSIONS) = False"
    by code_simp+
  from failed_io_still_recorded [OF h d, where dir = "''/p/''" and cs = "''abcdefgh''"
      and rest = "[]" and st = "\<lparr>files = [], ignoredCount = 0, binaryCount = 0\<rparr>"
      and es = "[]"] h
  show ?thesis by (simp add: v)
qed

text \<open>
  The claim as it stands fails: the one file of this directory cannot be stat'ed, and the
  inventory has a record for it.
\<close>

theorem failed_stat_counterexample:
  "scan example_engine notes_fs ''/p'' no_options =
     Inr \<lparr>files = [\<lparr>path = ''/p/notes.txt'', relPath = ''notes.txt'', name = ''notes.txt'',
                      ext = ''.txt'', size_f = 0, tokens = 0, isBinary = False\<rparr>],
          ignoredCount = 0, binaryCount = 0, totalTokens = 0, totalBytes = 0, rootDir = ''/p'',
          hasClaudeignore = False, hasGitignore = False\<rparr>"
  by code_simp

subsection \<open>Binary files\<close>

lemma sum_nonbinary:
  "\<forall>f\<in>set xs. isBinary f \<longrightarrow> tokens f = 0 \<Longrightarrow>
     sum_list (map tokens (filter (\<lambda>f. \<not> isBinary f) xs)) = sum_list (map tokens xs)"
  by (induction xs) auto

lemma picture_scan:
  "scan example_engine picture_fs ''/p'' no_options =
     Inr \<lparr>files = [\<lparr>path = ''/p/report.txt'', relPath = ''report.txt'', name = ''report.txt'',
                      ext = ''.txt'', size_f = 9, tokens = 3, isBinary = False\<rparr>,
                    \<lparr>path = ''/p/IMAGE.PNG'', relPath = ''IMAGE.PNG'', name = ''IMAGE.PNG'',
                      ext = ''.png'', size_f = 2000, tokens = 0, isBinary = True\<rparr>],
          ignoredCount = 0, binaryCount = 1, totalTokens = 3, totalBytes = 2009, rootDir = ''/p'',
          hasClaudeignore = False, hasGitignore = False\<rparr>"
  by code_simp

text \<open>
  C7. Whatever the rules and the engine, every record of the inventory of a scan that is
  binary has token count 0, and the token total of the scan is the sum over the records
  that are not binary. (A scan has an inventory unless the constructor of a regular
  expression throws.)
\<close>

theorem binary_no_tokens:
  assumes "scan re_test fs R opts = Inr r"
  shows "(\<forall>f\<in>set (files r). isBinary f \<longrightarrow> tokens f = 0)
       \<and> totalTokens r = sum_list (map tokens (filter (\<lambda>f. \<not> isBinary f) (files r)))"
proof -
  let ?I = "\<lambda>st. \<forall>f\<in>set (files st). isBinary f \<longrightarrow> tokens f = 0"
  from assms obtain st where
    w: "walk_root re_test (load_patterns fs opts) R (at_rootDir fs)
          \<lparr>files = [], ignoredCount = 0, binaryCount = 0\<rparr> = Inr st"
    and f: "files r = js_sort (\<lambda>a b. tokens b - tokens a) (files st)"
    and t: "totalTokens r = foldl (\<lambda>sum f. sum + tokens f) 0 (files st)"
    by (auto simp: scan_def Let_def and_then_def split: sum.splits)
  have "?I st"
    by (rule walk_root_inv [where I = ?I, OF _ _ w])
       (auto simp: visit_file_files made_record_binary_tokens)
  then have a: "\<forall>f\<in>set (files r). isBinary f \<longrightarrow> tokens f = 0"
    by (simp add: f js_sort_set)
  have "totalTokens r = sum_list (map tokens (files r))"
    by (simp add: t f foldl_sum js_sort_sum)
  with a show ?thesis by (simp add: sum_nonbinary)
qed

theorem binary_no_tokens_witness:
  "scan example_engine picture_fs ''/p'' no_options =
     Inr \<lparr>files = [\<lparr>path = ''/p/report.txt'', relPath = ''report.txt'', name = ''report.txt'',
                      ext = ''.txt'', size_f = 9, tokens = 3, isBinary = False\<rparr>,
                    \<lparr>path = ''/p/IMAGE.PNG'', relPath = ''IMAGE.PNG'', name = ''IMAGE.PNG'',
                      ext = ''.png'', size_f = 2000, tokens = 0, isBinary = True\<rparr>],
          ignoredCount = 0, binaryCount = 1, totalTokens = 3, totalBytes = 2009, rootDir = ''/p'',
          hasClaudeignore = False, hasGitignore = False\<rparr>
   \<and> totalTokens (projr (scan example_engine picture_fs ''/p'' no_options)) = 3"
  using binary_no_tokens [OF picture_scan] by (simp add: picture_scan)

subsection \<open>Token estimate\<close>

lemma estimateTokens_div: "estimateTokens n = (n + 3) div 4"
proof -
  have "\<lceil>real_of_int n / real_of_int 4\<rceil> = - (- n div 4)"
    by (rule ceiling_divide_eq_div)
  also have "\<dots> = (n + 3) div 4" by presburger
  finally show ?thesis by (simp add: estimateTokens_def CHARS_PER_TOKEN_def)
qed

text \<open>
  C9, as the code has it. \<open>estimateTokens n\<close> is the ceiling of \<open>n / 4\<close>: the integer
  \<open>(n + 3) div 4\<close>, the least \<open>k\<close> with \<open>n \<le> 4 k\<close>. The record of a file that is not binary
  and whose \<open>statSync\<close> and \<open>readFileSync\<close> both return has the ceiling of its character
  count over 4 as token count; when either throws the token count is 0.
\<close>

theorem tokens_are_ceiling:
  "estimateTokens n = \<lceil>real_of_int n / 4\<rceil>
   \<and> estimateTokens n = (n + 3) div 4
   \<and> n \<le> 4 * estimateTokens n \<and> 4 * (estimateTokens n - 1) < n
   \<and> (\<not> isBinary (made_record fp rp nm (File (Some sz) cs True)) \<longrightarrow>
        tokens (made_record fp rp nm (File (Some sz) cs True)) = \<lceil>real (length cs) / 4\<rceil>)
   \<and> tokens (made_record fp rp nm (File None cs rd)) = 0
   \<and> tokens (made_record fp rp nm (File szo cs False)) = 0"
proof -
  have 1: "estimateTokens k = \<lceil>real_of_int k / 4\<rceil>" for k
    by (simp add: estimateTokens_def CHARS_PER_TOKEN_def)
  have 2: "n \<le> 4 * estimateTokens n \<and> 4 * (estimateTokens n - 1) < n"
    unfolding estimateTokens_div by presburger
  have 3: "\<not> isBinary (made_record fp rp nm (File (Some sz) cs True)) \<longrightarrow>
        tokens (made_record fp rp nm (File (Some sz) cs True)) = \<lceil>real (length cs) / 4\<rceil>"
    using 1 [of "int (length cs)"] by (simp add: made_record_size_tokens made_record_fields)
  have 4: "tokens (made_record fp rp nm (File None cs rd)) = 0"
    by (simp add: made_record_size_tokens)
  have 5: "tokens (made_record fp rp nm (File szo cs False)) = 0"
    by (simp add: made_record_size_tokens)
  from 1 [of n] estimateTokens_div [of n] 2 3 4 5 show ?thesis by blast
qed

theorem tokens_are_ceiling_witness:
  "\<not> isBinary (made_record ''/p/a.txt'' ''a.txt'' ''a.txt'' (File (Some 5) ''abcde'' True))
   \<and> tokens (made_record ''/p/a.txt'' ''a.txt'' ''a.txt'' (File (Some 5) ''abcde'' True)) = 2"
proof -
  have nb: "\<not> isBinary (made_record ''/p/a.txt'' ''a.txt'' ''a.txt'' (File (Some 5) ''abcde'' True))"
    by code_simp
  with tokens_are_ceiling [of 0 "''/p/a.txt''" "''a.txt''" "''a.txt''" 5 "''abcde''" True None]
  show ?thesis by simp
qed

text \<open>
  The claim as it stands fails: this file is not binary and has five characters, its
  content cannot be read, and its record has token count 0, not 2.
\<close>

theorem unreadable_tokens_counterexample:
  "scan example_engine secret_fs ''/p'' no_options =
     Inr \<lparr>files = [\<lparr>path = ''/p/secret.txt'', relPath = ''secret.txt'', name = ''secret.txt'',
                      ext = ''.txt'', size_f = 5, tokens = 0, isBinary = False\<rparr>],
          ignoredCount = 0, binaryCount = 0, totalTokens = 0, totalBytes = 5, rootDir = ''/p'',
          hasClaudeignore = False, hasGitignore = False\<rparr>
   \<and> \<lceil>real (length ''abcde'') / 4\<rceil> = (2 :: int)"
proof
  show "scan example_engine secret_fs ''/p'' no_options =
     Inr \<lparr>files = [\<lparr>path = ''/p/secret.txt'', relPath = ''secret.txt'', name = ''secret.txt'',
                      ext = ''.txt'', size_f = 5, tokens = 0, isBinary = False\<rparr>],
          ignoredCount = 0, binaryCount = 0, totalTokens = 0, totalBytes = 5, rootDir = ''/p'',
          hasClaudeignore = False, hasGitignore = False\<rparr>"
    by code_simp
  show "\<lceil>real (length ''abcde'') / 4\<rceil> = (2 :: int)" by simp
qed

subsection \<open>Extensions\<close>

lemma lower_char_dot [simp]: "lower_char c = CHR ''.'' \<longleftrightarrow> c = CHR ''.''"
proof
  assume a: "lower_char c = CHR ''.''"
  show "c = CHR ''.''"
  proof (rule ccontr)
    assume n: "c \<noteq> CHR ''.''"
    define k where "k = (of_char c :: nat)"
    from a n have r: "(65 \<le> k \<and> k \<le> 90) \<or> (192 \<le> k \<and> k \<le> 222 \<and> k \<noteq> 215)"
      and e: "char_of (k + 32) = CHR ''.''"
      unfolding k_def by (auto simp: lower_char_def Let_def split: if_splits)
    from e have "(of_char (char_of (k + 32) :: char) :: nat) = of_char CHR ''.''" by simp
    then have "(k + 32) mod 256 = 46" by simp
    moreover from r have "k + 32 < 256" by linarith
    ultimately have "k + 32 = 46" by simp
    with r show False by linarith
  qed
next
  assume "c = CHR ''.''"
  then show "lower_char c = CHR ''.''" by (simp add: lower_char_def)
qed

lemma lower_char_dot' [simp]: "CHR ''.'' = lower_char c \<longleftrightarrow> c = CHR ''.''"
  using lower_char_dot [of c] by (simp only: eq_commute [of "CHR ''.''"])

lemma takeWhile_lower:
  "takeWhile (\<lambda>c. c \<noteq> CHR ''.'') (map lower_char s) =
     map lower_char (takeWhile (\<lambda>c. c \<noteq> CHR ''.'') s)"
  by (induction s) auto

lemma lower_dotdot: "map lower_char s = ''..'' \<longleftrightarrow> s = ''..''"
proof (cases s)
  case Nil
  then show ?thesis by simp
next
  case (Cons a t)
  show ?thesis
  proof (cases t)
    case Nil
    with Cons show ?thesis by simp
  next
    case (Cons b u)
    with \<open>s = a # t\<close> show ?thesis by (cases u) auto
  qed
qed

lemma extname_toLowerCase: "extname (toLowerCase s) = toLowerCase (extname s)"
proof -
  have 1: "length (takeWhile (\<lambda>c. c \<noteq> CHR ''.'') (rev (map lower_char s))) =
           length (takeWhile (\<lambda>c. c \<noteq> CHR ''.'') (rev s))"
    by (simp add: rev_map takeWhile_lower)
  have 2: "CHR ''.'' \<in> set (map lower_char s) \<longleftrightarrow> CHR ''.'' \<in> set s"
    by (induction s) auto
  show ?thesis
    unfolding extname_def toLowerCase_def Let_def
    by (simp only: 1 2 lower_dotdot length_map) (simp add: drop_map)
qed

text \<open>
  C10. Whether the record of a file entry is binary is decided by the extension of the
  name in lower case: it is the membership of the extension of the lower-cased name in
  the fixed set, so two names that differ only in case are classified alike.
\<close>

theorem binary_ext_case_insensitive:
  "isBinary (made_record fp rp nm node) = (extname (toLowerCase nm) \<in> set BINARY_EXTENSIONS)
   \<and> (toLowerCase nm = toLowerCase nm' \<longrightarrow>
        isBinary (made_record fp rp nm node) = isBinary (made_record fp' rp' nm' node'))"
  by (simp add: made_record_fields extname_toLowerCase toLowerCase_def [symmetric])
     (metis extname_toLowerCase)

theorem binary_ext_case_insensitive_witness:
  "toLowerCase ''IMAGE.PNG'' = toLowerCase ''image.png''
   \<and> isBinary (made_record ''/p/IMAGE.PNG'' ''IMAGE.PNG'' ''IMAGE.PNG'' (File (Some 2000) ''x'' True))
   \<and> isBinary (made_record ''/p/image.png'' ''image.png'' ''image.png'' (File (Some 2000) ''x'' True))"
proof -
  have l: "toLowerCase ''IMAGE.PNG'' = toLowerCase ''image.png''" by code_simp
  have b: "isBinary (made_record ''/p/image.png'' ''image.png'' ''image.png'' (File (Some 2000) ''x'' True))"
    by code_simp
  from binary_ext_case_insensitive [of "''/p/IMAGE.PNG''" "''IMAGE.PNG''" "''IMAGE.PNG''"
      "File (Some 2000) ''x'' True" "''image.png''" "''/p/image.png''" "''image.png''"
      "File (Some 2000) ''x'' True"]
  have "toLowerCase ''IMAGE.PNG'' = toLowerCase ''image.png'' \<longrightarrow>
      isBinary (made_record ''/p/IMAGE.PNG'' ''IMAGE.PNG'' ''IMAGE.PNG'' (File (Some 2000) ''x'' True)) =
      isBinary (made_record ''/p/image.png'' ''image.png'' ''image.png'' (File (Some 2000) ''x'' True))"
    by (rule conjunct2)
  with l b show ?thesis by blast
qed

subsection \<open>Rules that end in \<open>/*\<close>\<close>

lemma normalize_sep_append: "normalize_sep (a @ b) = normalize_sep a @ normalize_sep b"
  by (simp add: normalize_sep_def)

lemma normalize_sep_slash_star [simp]: "normalize_sep ''/*'' = ''/*''"
  by (simp add: normalize_sep_def backslash_def)

lemma includes_slash: "includes_str (a @ ''/*'') ''/''"
  unfolding includes_str_def sublist_def
  by (rule exI [of _ a], rule exI [of _ "''*''"]) simp

text \<open>
  C3, as the code has it. A rule that ends in \<open>/*\<close> and does not begin with \<open>**/\<close> matches
  a candidate exactly when the candidate, separators normalised, begins with the prefix
  directory and \<open>/\<close>: every path below the prefix matches, the direct children and the
  deeper descendants alike, and the prefix itself does not.
\<close>

theorem slash_star_matches_subtree:
  assumes "\<not> startsWith (normalize_sep (pre @ ''/*'')) ''**/''"
  shows "matchesPattern re_test rel (pre @ ''/*'') =
           Inr (startsWith (normalize_sep rel) (normalize_sep pre @ ''/''))
       \<and> (matchesPattern re_test rel (pre @ ''/*'') = Inr True \<longleftrightarrow>
            (\<exists>below. normalize_sep rel = normalize_sep pre @ ''/'' @ below))"
proof -
  have e: "endsWith (normalize_sep pre @ ''/*'') ''/*''"
    by (simp add: endsWith_def suffix_def)
  have 1: "matchesPattern re_test rel (pre @ ''/*'') =
             Inr (startsWith (normalize_sep rel) (normalize_sep pre @ ''/''))"
    using assms
    by (simp add: matchesPattern_def Let_def normalize_sep_append includes_slash e)
  have 2: "startsWith (normalize_sep rel) (normalize_sep pre @ ''/'') \<longleftrightarrow>
           (\<exists>below. normalize_sep rel = normalize_sep pre @ ''/'' @ below)"
    by (auto simp: startsWith_def prefix_def)
  from 1 2 show ?thesis by simp
qed

theorem slash_star_matches_subtree_witness:
  "\<not> startsWith (normalize_sep (''src'' @ ''/*'')) ''**/''
   \<and> matchesPattern example_engine ''src/a/b'' (''src'' @ ''/*'') = Inr True
   \<and> matchesPattern example_engine ''src/a'' (''src'' @ ''/*'') = Inr True
   \<and> matchesPattern example_engine ''src'' (''src'' @ ''/*'') = Inr False"
proof -
  have h: "\<not> startsWith (normalize_sep (''src'' @ ''/*'')) ''**/''" by code_simp
  have a: "startsWith (normalize_sep ''src/a/b'') (normalize_sep ''src'' @ ''/'')" by code_simp
  have b: "startsWith (normalize_sep ''src/a'') (normalize_sep ''src'' @ ''/'')" by code_simp
  have c: "\<not> startsWith (normalize_sep ''src'') (normalize_sep ''src'' @ ''/'')" by code_simp
  from slash_star_matches_subtree [OF h, of example_engine "''src/a/b''"]
       slash_star_matches_subtree [OF h, of example_engine "''src/a''"]
       slash_star_matches_subtree [OF h, of example_engine "''src''"] h a b c
  show ?thesis by simp
qed

text \<open>
  The claim as it stands fails: \<open>src/a/b\<close> is two segments below \<open>src\<close>, and \<open>src/*\<close>
  matches it.
\<close>

theorem slash_star_deeper_counterexample:
  "matchesPattern example_engine ''src/a/b'' ''src/*'' = Inr True
   \<and> \<not> direct_child ''src'' ''src/a/b''"
  by code_simp

subsection \<open>Pruning\<close>

lemma ancestors_Nil [simp]: "ancestors [] = []"
  by (simp add: ancestors_def)

lemma ancestors_Cons:
  "ancestors (x # p) = (if x = CHR ''/'' then [[]] else []) @ map ((#) x) (ancestors p)"
proof -
  have u: "[0..<Suc (length p)] = 0 # map Suc [0..<length p]"
    by (simp add: upt_conv_Cons map_Suc_upt del: upt_Suc)
  show ?thesis
    unfolding ancestors_def length_Cons u
    by (simp add: filter_map comp_def)
qed

lemma ancestors_no_slash: "CHR ''/'' \<notin> set n \<Longrightarrow> ancestors n = []"
  by (induction n) (auto simp: ancestors_Cons)

lemma ancestors_append:
  "ancestors (d @ CHR ''/'' # n) = ancestors d @ [d] @ map (\<lambda>a. d @ CHR ''/'' # a) (ancestors n)"
  by (induction d) (auto simp: ancestors_Cons)

lemma ancestors_child:
  "CHR ''/'' \<notin> set n \<Longrightarrow> ancestors (d @ CHR ''/'' # n) = ancestors d @ [d]"
  using ancestors_append [of d n] by (simp add: ancestors_no_slash)

lemma join_slash_snoc:
  "b \<noteq> [] \<Longrightarrow> join_slash (b @ [n]) = join_slash b @ CHR ''/'' # n"
  by (induction b rule: join_slash.induct) auto

lemma entry_kept:
  assumes "dir_kept re P b" "CHR ''/'' \<notin> set n"
  shows "ancestors_kept re P (relative_below b n)"
proof (cases "b = []")
  case True
  with assms(2) show ?thesis
    by (simp add: relative_below_def ancestors_kept_def ancestors_no_slash)
next
  case False
  with assms show ?thesis
    by (auto simp: relative_below_def dir_kept_def ancestors_kept_def join_slash_snoc
        ancestors_child)
qed

lemma subdir_kept:
  assumes "dir_kept re P b" "CHR ''/'' \<notin> set n"
      and "isIgnored re (relative_below b n) P = Inr False"
  shows "dir_kept re P (b @ [n])"
  using entry_kept [OF assms(1,2)] assms(3)
  by (simp add: dir_kept_def relative_below_def)

lemma walk_kept:
  "walk re P d b node st = Inr st' \<Longrightarrow> names_ok node \<Longrightarrow> dir_kept re P b \<Longrightarrow>
     \<forall>f\<in>set (files st). ancestors_kept re P (relPath f) \<Longrightarrow>
     \<forall>f\<in>set (files st'). ancestors_kept re P (relPath f)"
  "walk_entries re P d b es st = Inr st' \<Longrightarrow> names_ok_entries es \<Longrightarrow> dir_kept re P b \<Longrightarrow>
     \<forall>f\<in>set (files st). ancestors_kept re P (relPath f) \<Longrightarrow>
     \<forall>f\<in>set (files st'). ancestors_kept re P (relPath f)"
proof (induction re P d b node st and re P d b es st arbitrary: st' and st'
    rule: walk_walk_entries.induct)
  case (7 re P dir b name_e node rest st)
  let ?fp = "path_join dir name_e"
  let ?rp = "relative_below b name_e"
  from "7.prems"(2) have n: "CHR ''/'' \<notin> set name_e" and nn: "names_ok node"
    and nr: "names_ok_entries rest" by auto
  note ec = entry_kept [OF "7.prems"(3) n]
  from "7.prems"(1) obtain ign where ig: "isIgnored re ?rp P = Inr ign"
    by (auto simp: Let_def and_then_def split: sum.splits)
  show ?case
  proof (cases ign)
    case True
    with ig "7.prems"(1) have
      "walk_entries re P dir b rest (st\<lparr>ignoredCount := ignoredCount st + 1\<rparr>) = Inr st'"
      by (simp add: Let_def and_then_def)
    from "7.IH"(1) [OF refl refl True this nr "7.prems"(3)] "7.prems"(4)
    show ?thesis by simp
  next
    case False
    note ni = False
    show ?thesis
    proof (cases "isDirectory node")
      case True
      with ig ni "7.prems"(1) obtain st1 where
        w1: "walk re P ?fp (b @ [name_e]) node st = Inr st1"
        and w2: "walk_entries re P dir b rest st1 = Inr st'"
        by (auto simp: Let_def and_then_def split: sum.splits)
      from ig ni have "dir_kept re P (b @ [name_e])"
        by (intro subdir_kept [OF "7.prems"(3) n]) simp
      from "7.IH"(2) [OF refl refl ni True w1 nn this "7.prems"(4)]
      have "\<forall>f\<in>set (files st1). ancestors_kept re P (relPath f)" .
      from "7.IH"(3) [OF refl refl ni True w2 nr "7.prems"(3) this]
      show ?thesis .
    next
      case nd: False
      show ?thesis
      proof (cases "isFile node")
        case True
        with ig ni nd "7.prems"(1) have
          w: "walk_entries re P dir b rest (visit_file ?fp ?rp name_e node st) = Inr st'"
          by (simp add: Let_def and_then_def)
        have "\<forall>f\<in>set (files (visit_file ?fp ?rp name_e node st)). ancestors_kept re P (relPath f)"
          using "7.prems"(4) ec by (auto simp: visit_file_files made_record_fields)
        from "7.IH"(4) [OF refl refl ni nd True w nr "7.prems"(3) this]
        show ?thesis .
      next
        case False
        with ig ni nd "7.prems"(1) have w: "walk_entries re P dir b rest st = Inr st'"
          by (simp add: Let_def and_then_def)
        from "7.IH"(5) [OF refl refl ni nd False w nr "7.prems"(3,4)]
        show ?thesis .
      qed
    qed
  qed
qed auto

lemma isIgnored_False_iff:
  "isIgnored re rp P = Inr False \<longleftrightarrow> (\<forall>p\<in>set P. matchesPattern re rp p = Inr False)"
  by (induction P) (auto split: sum.splits if_splits)

lemma project_scan:
  "scan example_engine project_fs ''/p'' no_options =
     Inr \<lparr>files = [\<lparr>path = ''/p/.gitignore'', relPath = ''.gitignore'', name = ''.gitignore'',
                      ext = [], size_f = 10, tokens = 3, isBinary = False\<rparr>,
                    \<lparr>path = ''/p/src/index.js'', relPath = ''src/index.js'', name = ''index.js'',
                      ext = ''.js'', size_f = 8, tokens = 2, isBinary = False\<rparr>],
          ignoredCount = 2, binaryCount = 0, totalTokens = 5, totalBytes = 18, rootDir = ''/p'',
          hasClaudeignore = False, hasGitignore = True\<rparr>"
  by code_simp

text \<open>
  C4. Whatever the rules and the engine, on a tree whose entry names have no \<open>/\<close>, no
  ancestor directory of the relative path of a record of the inventory is matched by a
  rule of the combined rule set: the walk enters a directory only after \<open>isIgnored\<close> has
  said no for it. (A scan has an inventory unless the constructor of a regular
  expression throws.)
\<close>

theorem no_ignored_ancestor:
  assumes "tree_names_ok fs"
      and "scan re_test fs R opts = Inr r"
      and "f \<in> set (files r)"
  shows "\<forall>a\<in>set (ancestors (relPath f)).
           isIgnored re_test a (load_patterns fs opts) = Inr False
           \<and> (\<forall>p\<in>set (load_patterns fs opts). matchesPattern re_test a p = Inr False)"
proof -
  let ?P = "load_patterns fs opts"
  from assms(2) obtain st where
    w: "walk_root re_test ?P R (at_rootDir fs) \<lparr>files = [], ignoredCount = 0, binaryCount = 0\<rparr>
          = Inr st"
    and fr: "files r = js_sort (\<lambda>a b. tokens b - tokens a) (files st)"
    by (auto simp: scan_def Let_def and_then_def split: sum.splits)
  have "\<forall>f\<in>set (files st). ancestors_kept re_test ?P (relPath f)"
  proof (cases "lookup_path (at_rootDir fs)")
    case None
    with w show ?thesis by (auto simp: walk_root_def)
  next
    case (Some n)
    with w have w': "walk re_test ?P R [] n \<lparr>files = [], ignoredCount = 0, binaryCount = 0\<rparr> = Inr st"
      by (simp add: walk_root_def)
    from Some assms(1) have "names_ok n" by (simp add: tree_names_ok_def)
    from walk_kept(1) [OF w' this] show ?thesis by (simp add: dir_kept_def)
  qed
  with assms(3) have "\<forall>a\<in>set (ancestors (relPath f)). isIgnored re_test a ?P = Inr False"
    by (simp add: fr js_sort_set ancestors_kept_def)
  then show ?thesis by (simp add: isIgnored_False_iff)
qed

text \<open>
  A project whose \<open>.gitignore\<close> has the rules \<open>*.log\<close> and \<open>tmp/\<close>: \<open>.git\<close> and \<open>debug.log\<close>
  are ignored, and \<open>src\<close>, the ancestor of \<open>src/index.js\<close>, is matched by none of the five
  rules.
\<close>

theorem no_ignored_ancestor_witness:
  "tree_names_ok project_fs
   \<and> scan example_engine project_fs ''/p'' no_options =
     Inr \<lparr>files = [\<lparr>path = ''/p/.gitignore'', relPath = ''.gitignore'', name = ''.gitignore'',
                      ext = [], size_f = 10, tokens = 3, isBinary = False\<rparr>,
                    \<lparr>path = ''/p/src/index.js'', relPath = ''src/index.js'', name = ''index.js'',
                      ext = ''.js'', size_f = 8, tokens = 2, isBinary = False\<rparr>],
          ignoredCount = 2, binaryCount = 0, totalTokens = 5, totalBytes = 18, rootDir = ''/p'',
          hasClaudeignore = False, hasGitignore = True\<rparr>
   \<and> load_patterns project_fs no_options = [''.git'', ''.DS_Store'', ''Thumbs.db'', ''*.log'', ''tmp/'']
   \<and> ancestors ''src/index.js'' = [''src'']
   \<and> isIgnored example_engine ''src'' (load_patterns project_fs no_options) = Inr False"
proof -
  have n: "tree_names_ok project_fs" by code_simp
  have a: "ancestors ''src/index.js'' = [''src'']" by code_simp
  have l: "load_patterns project_fs no_options =
             [''.git'', ''.DS_Store'', ''Thumbs.db'', ''*.log'', ''tmp/'']"
    by code_simp
  have "\<forall>a\<in>set (ancestors ''src/index.js'').
          isIgnored example_engine a (load_patterns project_fs no_options) = Inr False
          \<and> (\<forall>p\<in>set (load_patterns project_fs no_options).
                matchesPattern example_engine a p = Inr False)"
    using no_ignored_ancestor [OF n project_scan,
      of "\<lparr>path = ''/p/src/index.js'', relPath = ''src/index.js'', name = ''index.js'',
           ext = ''.js'', size_f = 8, tokens = 2, isBinary = False\<rparr>"]
    by simp
  then have "isIgnored example_engine ''src'' (load_patterns project_fs no_options) = Inr False"
    by (simp add: a)
  with n a l show ?thesis by (simp add: project_scan)
qed

subsection \<open>Classification\<close>

lemma keys_distinct: "distinct (map rule_key BLOAT_PATTERNS)"
  by code_simp

lemma rule_key_inj:
  "bp \<in> set BLOAT_PATTERNS \<Longrightarrow> bp' \<in> set BLOAT_PATTERNS \<Longrightarrow> rule_key bp = rule_key bp' \<Longrightarrow> bp = bp'"
  using keys_distinct by (simp add: distinct_map inj_on_def)

lemma tag_tokens [simp]: "tokens (tag f bp) = tokens f"
  by (simp add: tag_def file_record.defs)

lemma map_of_map_set: "map_of (map_set k v m) = (map_of m)(k \<mapsto> v)"
  by (induction m) (auto simp: fun_eq_iff)

lemma map_set_keys:
  "map fst (map_set k v m) = (if k \<in> fst ` set m then map fst m else map fst m @ [k])"
  by (induction m) (force simp: image_iff)+

lemma map_set_distinct: "distinct (map fst m) \<Longrightarrow> distinct (map fst (map_set k v m))"
  by (simp add: map_set_keys)

lemma map_set_sum_new:
  "map_of m k = None \<Longrightarrow>
     sum_list (map (g \<circ> snd) (map_set k v m)) = sum_list (map (g \<circ> snd) m) + (g v :: int)"
  by (induction m) (auto split: if_splits)

lemma map_set_sum_old:
  "map_of m k = Some s \<Longrightarrow>
     sum_list (map (g \<circ> snd) (map_set k v m)) = sum_list (map (g \<circ> snd) m) - g s + (g v :: int)"
  by (induction m) (auto split: if_splits)

lemma first_rule_in: "first_rule f = Some bp \<Longrightarrow> bp \<in> set BLOAT_PATTERNS"
  by (auto simp: first_rule_def find_Some_iff)

lemma first_rule_first:
  "first_rule f = Some bp \<longleftrightarrow>
     (\<exists>i < length BLOAT_PATTERNS. BLOAT_PATTERNS ! i = bp \<and> regex_test (pattern bp) (relPath f) \<and>
        (\<forall>j < i. \<not> regex_test (pattern (BLOAT_PATTERNS ! j)) (relPath f)))"
  by (auto simp: first_rule_def find_Some_iff)

lemma bloatFiles_fold:
  "bloatFiles (fold analyze_file fs st) =
     bloatFiles st @ List.map_filter (\<lambda>f. map_option (tag f) (first_rule f)) fs"
  by (induction fs arbitrary: st)
     (auto simp: analyze_file_def Let_def List.map_filter_simps tag_def split: option.splits)

lemma contributing_snoc:
  "contributing bp (fs @ [f]) = contributing bp fs @ (if first_rule f = Some bp then [f] else [])"
  by (simp add: contributing_def)

lemma analyze_file_distinct:
  "distinct (map fst (suggestions_map st)) \<Longrightarrow>
     distinct (map fst (suggestions_map (analyze_file f st)))"
  by (auto simp: analyze_file_def Let_def map_set_distinct split: option.splits)

lemma analyze_file_map_ok:
  assumes "map_ok fs (suggestions_map st)"
  shows "map_ok (fs @ [f]) (suggestions_map (analyze_file f st))"
proof (cases "first_rule f")
  case None
  then have c: "contributing bp (fs @ [f]) = contributing bp fs" for bp
    by (simp add: contributing_snoc)
  from None have m: "suggestions_map (analyze_file f st) = suggestions_map st"
    by (simp add: analyze_file_def)
  from assms show ?thesis
    unfolding map_ok_def sugg_ok_def m c .
next
  case (Some bp0)
  let ?m = "suggestions_map st"
  let ?k = "rule_key bp0"
  have in0: "bp0 \<in> set BLOAT_PATTERNS" using Some by (rule first_rule_in)
  define s1 where "s1 = (case map_of ?m ?k of
      None \<Rightarrow> \<lparr> pattern = getIgnorePattern (relPath f) (pattern bp0),
                 reason = reason bp0, category = category bp0, priority = priority bp0,
                 tokenSavings = 0, fileCount = 0 \<rparr>
    | Some s \<Rightarrow> s)"
  define s2 where "s2 = s1\<lparr> tokenSavings := tokenSavings s1 + tokens f, fileCount := fileCount s1 + 1 \<rparr>"
  have mo: "map_of (suggestions_map (analyze_file f st)) = (map_of ?m)(?k \<mapsto> s2)"
    by (auto simp: analyze_file_def Some Let_def map_has_def map_of_map_set s1_def s2_def
          rule_key_def fun_eq_iff)
  have ks: "fst ` set (suggestions_map (analyze_file f st)) = insert ?k (fst ` set ?m)"
    using arg_cong [OF mo, of dom] by (simp add: dom_map_of_conv_image_fst)
  have s1ok: "sugg_ok bp0 fs s1"
    using assms in0 by (auto simp: map_ok_def s1_def sugg_ok_def split: option.splits)
  have s2ok: "sugg_ok bp0 (fs @ [f]) s2"
    using s1ok Some by (simp add: sugg_ok_def s2_def contributing_snoc)
  have other: "contributing bp (fs @ [f]) = contributing bp fs" if "bp \<noteq> bp0" for bp
    using that Some by (simp add: contributing_snoc)
  show ?thesis
    unfolding map_ok_def
  proof (intro conjI ballI)
    show "distinct (map fst (suggestions_map (analyze_file f st)))"
      using assms by (intro analyze_file_distinct) (simp add: map_ok_def)
  next
    show "fst ` set (suggestions_map (analyze_file f st)) \<subseteq> rule_key ` set BLOAT_PATTERNS"
      using assms in0 by (auto simp: ks map_ok_def)
  next
    fix bp assume bp: "bp \<in> set BLOAT_PATTERNS"
    show "case map_of (suggestions_map (analyze_file f st)) (rule_key bp) of
            None \<Rightarrow> contributing bp (fs @ [f]) = []
          | Some s \<Rightarrow> sugg_ok bp (fs @ [f]) s"
    proof (cases "bp = bp0")
      case True
      with s2ok show ?thesis by (simp add: mo)
    next
      case False
      with bp in0 have ne: "rule_key bp \<noteq> ?k" using rule_key_inj by blast
      from assms bp have
        "case map_of ?m (rule_key bp) of None \<Rightarrow> contributing bp fs = [] | Some s \<Rightarrow> sugg_ok bp fs s"
        unfolding map_ok_def by blast
      then show ?thesis
        using ne by (simp add: mo other [OF False] sugg_ok_def split: option.splits)
    qed
  qed
qed

lemma fold_snoc: "fold g (xs @ [x]) s = g x (fold g xs s)"
  by simp

lemma classify_map_ok: "map_ok fs (suggestions_map (classify fs))"
proof (induction fs rule: rev_induct)
  case Nil
  show ?case by (simp add: classify_def map_ok_def contributing_def)
next
  case (snoc f fs)
  then show ?case
    unfolding classify_def fold_snoc by (rule analyze_file_map_ok)
qed

lemma analyze_file_sums_ok:
  assumes "sums_ok st"
  shows "sums_ok (analyze_file f st)"
proof (cases "first_rule f")
  case None
  with assms show ?thesis by (simp add: analyze_file_def sums_ok_def)
next
  case (Some bp0)
  let ?m = "suggestions_map st"
  let ?k = "toString (pattern bp0)"
  let ?new = "\<lparr> pattern = getIgnorePattern (relPath f) (pattern bp0),
                 reason = reason bp0, category = category bp0, priority = priority bp0,
                 tokenSavings = 0, fileCount = 0 \<rparr>"
  have bf: "bloatFiles (analyze_file f st) = bloatFiles st @ [tag f bp0]"
    by (simp add: analyze_file_def Some Let_def tag_def)
  show ?thesis
  proof (cases "map_of ?m ?k")
    case None
    then have m: "suggestions_map (analyze_file f st) =
        map_set ?k (?new\<lparr> tokenSavings := tokenSavings ?new + tokens f, fileCount := fileCount ?new + 1 \<rparr>)
          (map_set ?k ?new ?m)"
      by (simp add: analyze_file_def Some Let_def map_has_def map_of_map_set)
    have o: "map_of (map_set ?k ?new ?m) ?k = Some ?new" by (simp add: map_of_map_set)
    from assms show ?thesis
      unfolding sums_ok_def m bf
      by (simp add: map_set_sum_old [OF o] map_set_sum_new [OF None])
  next
    case (Some s)
    then have m: "suggestions_map (analyze_file f st) =
        map_set ?k (s\<lparr> tokenSavings := tokenSavings s + tokens f, fileCount := fileCount s + 1 \<rparr>) ?m"
      by (simp add: analyze_file_def \<open>first_rule f = Some bp0\<close> Let_def map_has_def)
    from assms show ?thesis
      unfolding sums_ok_def m bf
      by (simp add: map_set_sum_old [OF Some])
  qed
qed

lemma classify_sums_ok: "sums_ok (classify fs)"
proof (induction fs rule: rev_induct)
  case Nil
  show ?case by (simp add: classify_def sums_ok_def)
next
  case (snoc f fs)
  then show ?case
    unfolding classify_def fold_snoc by (rule analyze_file_sums_ok)
qed

lemma dist_suggestions:
  "suggestions (analyze dist_scan) =
     [\<lparr> pattern = ''dist/'', reason = ''compiled output -- Claude reads source, not build'',
        category = build, priority = critical, tokenSavings = 26, fileCount = 2 \<rparr>]"
  by code_simp

text \<open>
  C5. The rule of a file is the first rule of the table, in its order, whose pattern
  tests true on the relative path. The bloat files of an analysis are the files of the
  scan that have a rule, each once and with the category and reason of its rule. Every
  suggestion is that of one rule of the table and counts, in files and in tokens, the
  files whose rule it is; such sets of two rules share no file; and over all
  suggestions the file counts add up to the number of bloat files and the token savings
  to the bloat token total.
\<close>

theorem first_rule_only:
  "(first_rule f = Some bp \<longleftrightarrow>
      (\<exists>i < length BLOAT_PATTERNS. BLOAT_PATTERNS ! i = bp \<and> regex_test (pattern bp) (relPath f) \<and>
         (\<forall>j < i. \<not> regex_test (pattern (BLOAT_PATTERNS ! j)) (relPath f))))
   \<and> bloatFiles_a (analyze scanResult) =
       List.map_filter (\<lambda>f. map_option (tag f) (first_rule f)) (files scanResult)
   \<and> (\<forall>s\<in>set (suggestions (analyze scanResult)). \<exists>bp\<in>set BLOAT_PATTERNS.
        reason s = reason bp \<and> category s = category bp \<and> priority s = priority bp \<and>
        fileCount s = int (length (contributing bp (files scanResult))) \<and>
        tokenSavings s = sum_list (map tokens (contributing bp (files scanResult))))
   \<and> (\<forall>x bp1 bp2. x \<in> set (contributing bp1 (files scanResult)) \<and>
        x \<in> set (contributing bp2 (files scanResult)) \<longrightarrow> bp1 = bp2)
   \<and> sum_list (map fileCount (suggestions (analyze scanResult))) =
       int (length (bloatFiles_a (analyze scanResult)))
   \<and> sum_list (map tokenSavings (suggestions (analyze scanResult))) =
       bloatTokens (analyze scanResult)"
proof -
  let ?fs = "files scanResult"
  let ?m = "suggestions_map (classify ?fs)"
  have 1: "bloatFiles_a (analyze scanResult) =
       List.map_filter (\<lambda>f. map_option (tag f) (first_rule f)) ?fs"
    by (simp add: analyze_def Let_def classify_def bloatFiles_fold)
  have sg: "set (suggestions (analyze scanResult)) = snd ` set ?m"
    by (simp add: analyze_def Let_def js_sort_set)
  have 2: "\<exists>bp\<in>set BLOAT_PATTERNS.
        reason s = reason bp \<and> category s = category bp \<and> priority s = priority bp \<and>
        fileCount s = int (length (contributing bp ?fs)) \<and>
        tokenSavings s = sum_list (map tokens (contributing bp ?fs))"
    if "s \<in> set (suggestions (analyze scanResult))" for s
  proof -
    from that sg obtain k where ks: "(k, s) \<in> set ?m" by auto
    note ok = classify_map_ok [of ?fs]
    from ok ks obtain bp where bp: "bp \<in> set BLOAT_PATTERNS" and k: "k = rule_key bp"
      unfolding map_ok_def by (metis fst_conv image_iff subsetD)
    from ok have "distinct (map fst ?m)" by (simp add: map_ok_def)
    with ks have "map_of ?m k = Some s" by simp
    with ok bp k have "sugg_ok bp ?fs s" unfolding map_ok_def by fastforce
    with bp show ?thesis unfolding sugg_ok_def by blast
  qed
  have 3: "bp1 = bp2"
    if "x \<in> set (contributing bp1 ?fs) \<and> x \<in> set (contributing bp2 ?fs)" for x bp1 bp2
    using that by (auto simp: contributing_def)
  note so = classify_sums_ok [of ?fs]
  have 4: "sum_list (map fileCount (suggestions (analyze scanResult))) =
       int (length (bloatFiles_a (analyze scanResult)))"
    using so by (simp add: analyze_def Let_def js_sort_sum sums_ok_def comp_def)
  have 5: "sum_list (map tokenSavings (suggestions (analyze scanResult))) =
       bloatTokens (analyze scanResult)"
    using so by (simp add: analyze_def Let_def js_sort_sum sums_ok_def comp_def foldl_sum)
  from first_rule_first [of f bp] 1 2 3 4 5 show ?thesis by blast
qed

theorem first_rule_only_witness:
  "suggestions (analyze dist_scan) =
     [\<lparr> pattern = ''dist/'', reason = ''compiled output -- Claude reads source, not build'',
        category = build, priority = critical, tokenSavings = 26, fileCount = 2 \<rparr>]
   \<and> length (bloatFiles_a (analyze dist_scan)) = 2
   \<and> bloatTokens (analyze dist_scan) = 26"
proof -
  note t = first_rule_only [of "hd (files dist_scan)" "hd BLOAT_PATTERNS" dist_scan]
  from t have "sum_list (map fileCount (suggestions (analyze dist_scan))) =
       int (length (bloatFiles_a (analyze dist_scan)))" by blast
  moreover from t have "sum_list (map tokenSavings (suggestions (analyze dist_scan))) =
       bloatTokens (analyze dist_scan)" by blast
  ultimately show ?thesis by (simp add: dist_suggestions)
qed

subsection \<open>Double precision\<close>

text \<open>\<open>scale2\<close> is multiplication by a power of 2, and \<open>floor_log2\<close> is what its name says.\<close>

lemma scale2_powi: "scale2 x e = x * 2 powi e"
  by (simp add: scale2_def power_int_def field_simps)

lemma of_int_bitlen_bounds:
  assumes "0 < (p::int)"
  shows "(2::rat) powi (bitlen p - 1) \<le> of_int p" "of_int p < (2::rat) powi (bitlen p)"
proof -
  from bitlen_bounds [OF assms] have l: "2 ^ nat (bitlen p - 1) \<le> p" and u: "p < 2 ^ nat (bitlen p)"
    by auto
  from assms have b: "1 \<le> bitlen p" by (auto simp: bitlen_alt_def)
  from l have "(of_int (2 ^ nat (bitlen p - 1)) :: rat) \<le> of_int p" by (simp only: of_int_le_iff)
  with b show "(2::rat) powi (bitlen p - 1) \<le> of_int p" by (simp add: power_int_def)
  from u have "(of_int p :: rat) < of_int (2 ^ nat (bitlen p))" by (simp only: of_int_less_iff)
  with b show "of_int p < (2::rat) powi (bitlen p)" by (simp add: power_int_def)
qed

lemma floor_log2_bounds:
  assumes "0 < a"
  shows "scale2 1 (floor_log2 a) \<le> a \<and> a < scale2 1 (floor_log2 a + 1)"
proof -
  obtain p q where pq: "quotient_of a = (p, q)" by (cases "quotient_of a")
  then have q: "0 < q" and a: "a = of_int p / of_int q"
    by (simp_all add: quotient_of_denom_pos quotient_of_div)
  from assms a q have p: "0 < p" by (simp add: zero_less_divide_iff)
  define k where "k = bitlen p - bitlen q"
  note bp = of_int_bitlen_bounds [OF p] and bq = of_int_bitlen_bounds [OF q]
  have qpos: "(0::rat) < of_int q" using q by simp
  have pw: "(0::rat) < 2 powi n" for n :: int
    by (rule zero_less_power_int) simp
  have up: "a < 2 powi (k + 1)"
  proof -
    have "a < 2 powi (bitlen p) / of_int q"
      unfolding a using bp(2) qpos by (simp add: divide_strict_right_mono)
    also have "\<dots> \<le> 2 powi (bitlen p) / 2 powi (bitlen q - 1)"
      using bq(1) pw [of "bitlen p"] pw [of "bitlen q - 1"] qpos
      by (intro divide_left_mono mult_pos_pos) simp_all
    also have "\<dots> = 2 powi (k + 1)"
      by (simp add: k_def power_int_diff [symmetric] algebra_simps)
    finally show ?thesis .
  qed
  have lo: "2 powi (k - 1) \<le> a"
  proof -
    have "(2::rat) powi (k - 1) = 2 powi (bitlen p - 1) / 2 powi (bitlen q)"
      by (simp add: k_def power_int_diff [symmetric] algebra_simps)
    also have "\<dots> \<le> of_int p / 2 powi (bitlen q)"
      using bp(1) by (simp add: divide_right_mono)
    also have "\<dots> \<le> of_int p / of_int q"
      using bq(2) p qpos pw [of "bitlen q"]
      by (intro divide_left_mono mult_pos_pos) simp_all
    finally show ?thesis by (simp add: a)
  qed
  show ?thesis
  proof (cases "scale2 1 k \<le> a")
    case True
    then have "floor_log2 a = k" by (simp add: floor_log2_def pq k_def)
    with True up show ?thesis by (simp add: scale2_powi)
  next
    case False
    then have "floor_log2 a = k - 1" by (simp add: floor_log2_def pq k_def)
    with False lo show ?thesis by (simp add: scale2_powi)
  qed
qed

text \<open>
  The percentage of 23 in 40 is 57, not the 58 of exact arithmetic: the quotient is a
  little below 0.575 as a double. Of 29 in 200 it is 14.
\<close>

lemma reductionPercent_examples:
  "Math_round (js_times (js_divide 23 40) 100) = 57"
  "Math_round (js_times (js_divide 29 200) 100) = 14"
  "Math_round (js_times (js_divide 1 8) 100) = 13"
  by code_simp+

end
